theory Spec2Isabelle
  imports Main "HOL-Library.Char_ord" "HOL-Library.List_Lexorder" "HOL-Library.Multiset"
begin

section \<open>The build-file syntax tree\<close>

text \<open>
  The fixers of \<^verbatim>\<open>merger/fix.go\<close> work on the syntax tree of the buildtools
  parser (package \<^verbatim>\<open>bf\<close>). Only the node kinds and fields the fixers read or
  write are kept: source positions and the multi-line flags are dropped. A comment is
  its token. A Go \<^verbatim>\<open>bf.Expr\<close> that may be nil is an \<open>expr option\<close>.
\<close>

type_synonym comment = string

record comments =
  cmBefore :: "comment list"
  cmSuffix :: "comment list"
  cmAfter :: "comment list"

definition noComments :: comments where
  "noComments = \<lparr>cmBefore = [], cmSuffix = [], cmAfter = []\<rparr>"

datatype expr =
    LiteralExpr comments string
  | StringExpr comments string
  | ListExpr comments "expr list"
  | DictExpr comments "expr list"
  | KeyValueExpr comments expr expr
  | BinaryExpr comments expr string expr
  | CallExpr comments expr "expr list" bool

text \<open>
  A typed pointer of the Go code (\<^verbatim>\<open>*bf.ListExpr\<close>, \<^verbatim>\<open>*bf.DictExpr\<close>,
  \<^verbatim>\<open>*bf.CallExpr\<close>) is a record of the node's fields; a type assertion
  \<^verbatim>\<open>e.(*bf.T)\<close> is a function to \<open>option\<close>.
\<close>

record listExpr =
  lComments :: comments
  lList :: "expr list"

record dictExpr =
  dComments :: comments
  dList :: "expr list"

record callExpr =
  cComments :: comments
  cX :: expr
  cList :: "expr list"
  cForceCompact :: bool

definition ListOf :: "listExpr \<Rightarrow> expr" where
  "ListOf l = ListExpr (lComments l) (lList l)"

definition DictOf :: "dictExpr \<Rightarrow> expr" where
  "DictOf d = DictExpr (dComments d) (dList d)"

definition CallOf :: "callExpr \<Rightarrow> expr" where
  "CallOf c = CallExpr (cComments c) (cX c) (cList c) (cForceCompact c)"

fun asCallExpr :: "expr \<Rightarrow> callExpr option" where
  "asCallExpr (CallExpr c x l fc) =
     Some \<lparr>cComments = c, cX = x, cList = l, cForceCompact = fc\<rparr>"
| "asCallExpr _ = None"

fun asLiteralExpr :: "expr \<Rightarrow> string option" where
  "asLiteralExpr (LiteralExpr c t) = Some t"
| "asLiteralExpr _ = None"

fun asStringExpr :: "expr \<Rightarrow> string option" where
  "asStringExpr (StringExpr c v) = Some v"
| "asStringExpr _ = None"

fun asKeyValueExpr :: "expr \<Rightarrow> (expr \<times> expr) option" where
  "asKeyValueExpr (KeyValueExpr c k v) = Some (k, v)"
| "asKeyValueExpr _ = None"

fun asListExpr :: "expr \<Rightarrow> listExpr option" where
  "asListExpr (ListExpr c l) = Some \<lparr>lComments = c, lList = l\<rparr>"
| "asListExpr _ = None"

fun asDictExpr :: "expr \<Rightarrow> dictExpr option" where
  "asDictExpr (DictExpr c l) = Some \<lparr>dComments = c, dList = l\<rparr>"
| "asDictExpr _ = None"

record bfFile =
  Path :: string
  Stmt :: "expr list"

section \<open>The rule view\<close>

text \<open>
  \<^verbatim>\<open>bf.Rule\<close> is a view of a call: its kind is the token of a literal callee, an
  attribute is an argument \<^verbatim>\<open>key = value\<close>, a binary expression with the operator
  \<^verbatim>\<open>=\<close> and a literal on the left (the shape lines 291 to 296 of the source test).
  The accessors find the first such argument with the key; \<open>SetAttr\<close> replaces its
  value in place and appends when there is none, \<open>DelAttr\<close> removes it.
\<close>

definition Kind :: "callExpr \<Rightarrow> string" where
  "Kind r = (case asLiteralExpr (cX r) of Some t \<Rightarrow> t | None \<Rightarrow> [])"

definition SetKind :: "callExpr \<Rightarrow> string \<Rightarrow> callExpr" where
  "SetKind r kind = r\<lparr>cX := LiteralExpr noComments kind\<rparr>"

fun isAttr :: "string \<Rightarrow> expr \<Rightarrow> bool" where
  "isAttr key (BinaryExpr c (LiteralExpr kc k) op y) = (op = ''='' \<and> k = key)"
| "isAttr key _ = False"

fun attrValue :: "expr \<Rightarrow> expr option" where
  "attrValue (BinaryExpr c x op y) = Some y"
| "attrValue _ = None"

fun attrOf :: "string \<Rightarrow> expr list \<Rightarrow> expr option" where
  "attrOf key [] = None"
| "attrOf key (e # es) = (if isAttr key e then attrValue e else attrOf key es)"

definition Attr :: "callExpr \<Rightarrow> string \<Rightarrow> expr option" where
  "Attr r key = attrOf key (cList r)"

definition AttrString :: "callExpr \<Rightarrow> string \<Rightarrow> string" where
  "AttrString r key =
     (case Attr r key of
        None \<Rightarrow> []
      | Some y \<Rightarrow> (case asStringExpr y of None \<Rightarrow> [] | Some v \<Rightarrow> v))"

definition Name :: "callExpr \<Rightarrow> string" where
  "Name r = AttrString r ''name''"

fun setValue :: "expr \<Rightarrow> expr \<Rightarrow> expr" where
  "setValue (BinaryExpr c x op y) val = BinaryExpr c x op val"
| "setValue e val = e"

fun setAttrIn :: "string \<Rightarrow> expr \<Rightarrow> expr list \<Rightarrow> expr list" where
  "setAttrIn key val [] =
     [BinaryExpr noComments (LiteralExpr noComments key) ''='' val]"
| "setAttrIn key val (e # es) =
     (if isAttr key e then setValue e val # es else e # setAttrIn key val es)"

definition SetAttr :: "callExpr \<Rightarrow> string \<Rightarrow> expr \<Rightarrow> callExpr" where
  "SetAttr r key val = r\<lparr>cList := setAttrIn key val (cList r)\<rparr>"

fun delAttrIn :: "string \<Rightarrow> expr list \<Rightarrow> expr list" where
  "delAttrIn key [] = []"
| "delAttrIn key (e # es) = (if isAttr key e then es else e # delAttrIn key es)"

definition DelAttr :: "callExpr \<Rightarrow> string \<Rightarrow> callExpr" where
  "DelAttr r key = r\<lparr>cList := delAttrIn key (cList r)\<rparr>"

section \<open>The squash engine\<close>

datatype error = UnrecognizedShape

text \<open>
  \<^verbatim>\<open>exprListAndDict\<close> is called by \<^verbatim>\<open>squashExpr\<close> and defined in another file
  of the package. The squash functions take it as the parameter \<open>eld\<close>, so what is
  proved of them holds for every decomposition; \<open>exprListAndDict\<close> below is the
  instance used at concrete inputs.
\<close>

type_synonym decompose = "expr option \<Rightarrow> error + (listExpr option \<times> dictExpr option)"

fun stringKeys :: "expr list \<Rightarrow> bool" where
  "stringKeys [] = True"
| "stringKeys (e # es) =
     (case asKeyValueExpr e of
        None \<Rightarrow> False
      | Some kv \<Rightarrow> (case asStringExpr (fst kv) of None \<Rightarrow> False | Some k \<Rightarrow> stringKeys es))"

fun selectDict :: "expr \<Rightarrow> dictExpr option" where
  "selectDict (CallExpr c (LiteralExpr xc t) [DictExpr dc es] fc) =
     (if t = ''select'' \<and> stringKeys es then Some \<lparr>dComments = dc, dList = es\<rparr> else None)"
| "selectDict _ = None"

text \<open>
  Modelled from the spec: \<^verbatim>\<open>exprListAndDict\<close> is not in the source file. The spec
  has it decompose nil, a list, \<^verbatim>\<open>select(dict)\<close> and \<^verbatim>\<open>list + select(dict)\<close>
  into a list and a dict, either of which may be nil, and fail on a call other than
  \<^verbatim>\<open>select\<close>, a \<^verbatim>\<open>select\<close> whose sole argument is not a dict, a dict with a
  key that is not a string, a \<^verbatim>\<open>+\<close> whose left operand is not a list, and every
  other shape.
\<close>

fun exprListAndDict :: decompose where
  "exprListAndDict None = Inr (None, None)"
| "exprListAndDict (Some (ListExpr c l)) = Inr (Some \<lparr>lComments = c, lList = l\<rparr>, None)"
| "exprListAndDict (Some (CallExpr c x l fc)) =
     (case selectDict (CallExpr c x l fc) of
        None \<Rightarrow> Inl UnrecognizedShape
      | Some d \<Rightarrow> Inr (None, Some d))"
| "exprListAndDict (Some (BinaryExpr c x op y)) =
     (if op \<noteq> ''+'' then Inl UnrecognizedShape
      else case asListExpr x of
        None \<Rightarrow> Inl UnrecognizedShape
      | Some l \<Rightarrow>
          (case selectDict y of
             None \<Rightarrow> Inl UnrecognizedShape
           | Some d \<Rightarrow> Inr (Some l, Some d)))"
| "exprListAndDict (Some _) = Inl UnrecognizedShape"

definition squashList :: "listExpr option \<Rightarrow> listExpr option \<Rightarrow> listExpr option" where
  "squashList x y =
     (case x of
        None \<Rightarrow> y
      | Some xl \<Rightarrow>
          (case y of
             None \<Rightarrow> x
           | Some yl \<Rightarrow>
               Some (xl\<lparr>lComments :=
                          \<lparr>cmBefore = cmBefore (lComments xl) @ cmBefore (lComments yl),
                           cmSuffix = cmSuffix (lComments xl) @ cmSuffix (lComments yl),
                           cmAfter = cmAfter (lComments xl) @ cmAfter (lComments yl)\<rparr>,
                        lList := lList xl @ lList yl\<rparr>)))"

text \<open>The first loop of \<^verbatim>\<open>squashDict\<close>: the index of each string key of \<open>x\<close>.\<close>

fun xCaseIndex :: "nat \<Rightarrow> expr list \<Rightarrow> (string \<rightharpoonup> nat) \<Rightarrow> (string \<rightharpoonup> nat)" where
  "xCaseIndex i [] m = m"
| "xCaseIndex i (e # es) m =
     (case asKeyValueExpr e of
        None \<Rightarrow> xCaseIndex (Suc i) es m
      | Some kv \<Rightarrow>
          (case asStringExpr (fst kv) of
             None \<Rightarrow> xCaseIndex (Suc i) es m
           | Some key \<Rightarrow> xCaseIndex (Suc i) es (m(key \<mapsto> i))))"

text \<open>
  \<open>squashEntries\<close> is the second loop of \<^verbatim>\<open>squashDict\<close>, over the entries of
  \<open>y\<close>. Its state is the entry list of \<open>x\<close> (the loop writes \<^verbatim>\<open>x.List[i]\<close>) and
  the entry list of the result. The second type assertion of the loop is made on the
  entry \<^verbatim>\<open>e\<close>, as in the source (line 231), not on the entry's key. An entry that
  is a key/value pair is not a string, so the branch after that assertion, the only
  place where \<^verbatim>\<open>squashDict\<close> calls \<^verbatim>\<open>squashExpr\<close> again and writes to
  \<open>x\<close>, is never entered: the termination proof rests on this, and so does keeping
  the list of \<open>x\<close> and the list of the result apart (in Go the two share storage until
  an append moves the result).
\<close>

lemma asKeyValue_not_String: "asKeyValueExpr e = Some kv \<Longrightarrow> asStringExpr e = None"
  by (cases e) simp_all

function squashExpr :: "decompose \<Rightarrow> expr option \<Rightarrow> expr option \<Rightarrow> error + expr option"
  and squashDict :: "decompose \<Rightarrow> dictExpr option \<Rightarrow> dictExpr option \<Rightarrow> error + dictExpr option"
  and squashEntries ::
    "decompose \<Rightarrow> (string \<rightharpoonup> nat) \<Rightarrow> expr list \<Rightarrow> expr list \<Rightarrow> expr list \<Rightarrow> error + expr list"
where
  "squashExpr eld x y =
     (case eld x of
        Inl err \<Rightarrow> Inl err
      | Inr xs \<Rightarrow>
          (case eld y of
             Inl err \<Rightarrow> Inl err
           | Inr ys \<Rightarrow>
               (let squashedList = squashList (fst xs) (fst ys) in
                case squashDict eld (snd xs) (snd ys) of
                  Inl err \<Rightarrow> Inl err
                | Inr squashedDict \<Rightarrow>
                    (let squashedSelect =
                           map_option
                             (\<lambda>d. CallExpr noComments (LiteralExpr noComments ''select'')
                                    [DictOf d] False)
                             squashedDict
                     in case squashedList of
                          None \<Rightarrow> Inr (map_option DictOf squashedDict)
                        | Some l \<Rightarrow>
                            (case squashedSelect of
                               None \<Rightarrow> Inr (Some (ListOf l))
                             | Some sel \<Rightarrow>
                                 Inr (Some (BinaryExpr noComments (ListOf l) ''+'' sel)))))))"
| "squashDict eld x y =
     (case x of
        None \<Rightarrow> Inr y
      | Some xd \<Rightarrow>
          (case y of
             None \<Rightarrow> Inr x
           | Some yd \<Rightarrow>
               (case squashEntries eld (xCaseIndex 0 (dList xd) Map.empty)
                       (dList xd) (dList xd) (dList yd) of
                  Inl err \<Rightarrow> Inl err
                | Inr squashed \<Rightarrow>
                    Inr (Some (xd\<lparr>dComments :=
                                    \<lparr>cmBefore = cmBefore (dComments xd) @ cmBefore (dComments yd),
                                     cmSuffix = cmSuffix (dComments xd) @ cmSuffix (dComments yd),
                                     cmAfter = cmAfter (dComments xd) @ cmAfter (dComments yd)\<rparr>,
                                  dList := squashed\<rparr>)))))"
| "squashEntries eld idx xl squashed [] = Inr squashed"
| "squashEntries eld idx xl squashed (e # es) =
     (case asKeyValueExpr e of
        None \<Rightarrow> squashEntries eld idx xl (squashed @ [e]) es
      | Some kv \<Rightarrow>
          (case asStringExpr e of
             None \<Rightarrow> squashEntries eld idx xl (squashed @ [e]) es
           | Some key \<Rightarrow>
               (case idx key of
                  None \<Rightarrow> squashEntries eld idx xl (squashed @ [e]) es
                | Some i \<Rightarrow>
                    (case squashExpr eld (Some (xl ! i)) (Some (snd kv)) of
                       Inl err \<Rightarrow> Inl err
                     | Inr squashedElem \<Rightarrow>
                         (case squashedElem of
                            None \<Rightarrow> squashEntries eld idx xl squashed es
                          | Some el \<Rightarrow> squashEntries eld idx (xl[i := el]) squashed es)))))"
  by pat_completeness auto

termination
  by (relation "inv_image (less_than <*lex*> less_than)
    (\<lambda>a. case a of
       Inl (eld, x, y) \<Rightarrow> (2::nat, 0::nat)
     | Inr (Inl (eld, x, y)) \<Rightarrow> (1, 0)
     | Inr (Inr (eld, idx, xl, sq, ys)) \<Rightarrow> (0, length ys))")
   (auto simp: asKeyValue_not_String)

section \<open>The cgo_library fixer\<close>

text \<open>
  Modelled from the spec: the constants \<^verbatim>\<open>config.DefaultLibName\<close> and
  \<^verbatim>\<open>config.DefaultCgoLibName\<close> are declared in a file of the package
  \<^verbatim>\<open>config\<close> that is not in the sources; the spec's scenarios give the reserved
  default names.
\<close>

definition DefaultLibName :: string where
  "DefaultLibName = ''go_default_library''"

definition DefaultCgoLibName :: string where
  "DefaultCgoLibName = ''cgo_default_library''"

text \<open>
  \<^verbatim>\<open>shouldKeep\<close>, the test for a keep comment on a node, is defined in another file
  of the package; the fixer takes it as the parameter \<open>keep\<close>. The scan of
  \<^verbatim>\<open>squashCgoLibrary\<close> keeps the first default cgo_library without a keep comment
  and the first default go_library, each with its index (nil and \<open>-1\<close> are \<open>None\<close>).
\<close>

type_synonym found = "(nat \<times> callExpr) option"

definition isDefaultCgoLibrary :: "(expr \<Rightarrow> bool) \<Rightarrow> callExpr \<Rightarrow> bool" where
  "isDefaultCgoLibrary keep r =
     (Kind r = ''cgo_library'' \<and> Name r = DefaultCgoLibName \<and> \<not> keep (CallOf r))"

definition isDefaultGoLibrary :: "callExpr \<Rightarrow> bool" where
  "isDefaultGoLibrary r = (Kind r = ''go_library'' \<and> Name r = DefaultLibName)"

fun findDefaultRules ::
  "(expr \<Rightarrow> bool) \<Rightarrow> nat \<Rightarrow> expr list \<Rightarrow> found \<Rightarrow> found \<Rightarrow> found \<times> found" where
  "findDefaultRules keep i [] cgoLibrary goLibrary = (cgoLibrary, goLibrary)"
| "findDefaultRules keep i (stmt # stmts) cgoLibrary goLibrary =
     (case asCallExpr stmt of
        None \<Rightarrow> findDefaultRules keep (Suc i) stmts cgoLibrary goLibrary
      | Some c \<Rightarrow>
          if isDefaultCgoLibrary keep c then
            (if cgoLibrary \<noteq> None
             then findDefaultRules keep (Suc i) stmts cgoLibrary goLibrary
             else findDefaultRules keep (Suc i) stmts (Some (i, c)) goLibrary)
          else if isDefaultGoLibrary c then
            (if goLibrary \<noteq> None
             then findDefaultRules keep (Suc i) stmts cgoLibrary goLibrary
             else findDefaultRules keep (Suc i) stmts cgoLibrary (Some (i, c)))
          else findDefaultRules keep (Suc i) stmts cgoLibrary goLibrary)"

text \<open>A statement that the scan takes for a default cgo_library (line 59).\<close>

definition defaultCgoStmt :: "(expr \<Rightarrow> bool) \<Rightarrow> expr \<Rightarrow> bool" where
  "defaultCgoStmt keep stmt =
     (case asCallExpr stmt of None \<Rightarrow> False | Some c \<Rightarrow> isDefaultCgoLibrary keep c)"

text \<open>The go_library created when the file has none (lines 93 to 98).\<close>

definition newGoLibrary :: "callExpr \<Rightarrow> callExpr" where
  "newGoLibrary cgoLibrary =
     (let named = SetAttr
            \<lparr>cComments = noComments, cX = LiteralExpr noComments ''go_library'',
             cList = [], cForceCompact = False\<rparr>
            ''name'' (StringExpr noComments DefaultLibName)
      in case Attr cgoLibrary ''visibility'' of
           None \<Rightarrow> named
         | Some vis \<Rightarrow> SetAttr named ''visibility'' vis)"

text \<open>Lines 104 to 109: the library attribute goes, cgo is set, the comments are appended.\<close>

definition prepareGoLibrary :: "callExpr \<Rightarrow> callExpr \<Rightarrow> callExpr" where
  "prepareGoLibrary cgoLibrary r =
     (let r' = SetAttr (DelAttr r ''library'') ''cgo'' (LiteralExpr noComments ''True'')
      in r'\<lparr>cComments :=
              \<lparr>cmBefore = cmBefore (cComments r') @ cmBefore (cComments cgoLibrary),
               cmSuffix = cmSuffix (cComments r') @ cmSuffix (cComments cgoLibrary),
               cmAfter = cmAfter (cComments r') @ cmAfter (cComments cgoLibrary)\<rparr>\<rparr>)"

definition squashedKeys :: "string list" where
  "squashedKeys = [''cdeps'', ''clinkopts'', ''copts'', ''data'', ''deps'', ''gc_goopts'', ''srcs'']"

text \<open>
  The loop of lines 111 to 120. An attribute is set only when \<^verbatim>\<open>squashExpr\<close> returns
  no error. A nil result with no error is not an expression of this model and sets
  nothing; \<open>squashExpr_exprListAndDict_Some\<close> shows that the package's decomposition
  never gives one for an attribute of cgo_library.
\<close>

fun squashAttrs :: "decompose \<Rightarrow> callExpr \<Rightarrow> string list \<Rightarrow> callExpr \<Rightarrow> callExpr" where
  "squashAttrs eld cgoLibrary [] fixedGoLibrary = fixedGoLibrary"
| "squashAttrs eld cgoLibrary (key # keys) fixedGoLibrary =
     (case Attr cgoLibrary key of
        None \<Rightarrow> squashAttrs eld cgoLibrary keys fixedGoLibrary
      | Some cgoLibraryAttr \<Rightarrow>
          (case squashExpr eld (Attr fixedGoLibrary key) (Some cgoLibraryAttr) of
             Inl err \<Rightarrow> squashAttrs eld cgoLibrary keys fixedGoLibrary
           | Inr None \<Rightarrow> squashAttrs eld cgoLibrary keys fixedGoLibrary
           | Inr (Some fixedAttr) \<Rightarrow>
               squashAttrs eld cgoLibrary keys (SetAttr fixedGoLibrary key fixedAttr)))"

definition fixedGoLibraryOf :: "decompose \<Rightarrow> callExpr \<Rightarrow> found \<Rightarrow> callExpr" where
  "fixedGoLibraryOf eld cgoLibrary goLibrary =
     squashAttrs eld cgoLibrary squashedKeys
       (prepareGoLibrary cgoLibrary
          (case goLibrary of None \<Rightarrow> newGoLibrary cgoLibrary | Some g \<Rightarrow> snd g))"

definition removeAt :: "nat \<Rightarrow> 'a list \<Rightarrow> 'a list" where
  "removeAt i xs = take i xs @ drop (Suc i) xs"

definition squashCgoLibrary :: "(expr \<Rightarrow> bool) \<Rightarrow> decompose \<Rightarrow> bfFile \<Rightarrow> bfFile" where
  "squashCgoLibrary keep eld oldFile =
     (case findDefaultRules keep 0 (Stmt oldFile) None None of
        (None, goLibrary) \<Rightarrow> oldFile
      | (Some cgo, goLibrary) \<Rightarrow>
          (let cgoLibraryIndex = fst cgo; cgoLibrary = snd cgo in
           if goLibrary \<noteq> None \<and> keep (CallOf (snd (the goLibrary)))
           then oldFile\<lparr>Stmt := removeAt cgoLibraryIndex (Stmt oldFile)\<rparr>
           else
             (let fixedGoLibraryExpr = CallOf (fixedGoLibraryOf eld cgoLibrary goLibrary) in
              case goLibrary of
                None \<Rightarrow> oldFile\<lparr>Stmt := (Stmt oldFile)[cgoLibraryIndex := fixedGoLibraryExpr]\<rparr>
              | Some g \<Rightarrow>
                  oldFile\<lparr>Stmt := (removeAt cgoLibraryIndex (Stmt oldFile))
                    [(if fst g > cgoLibraryIndex then fst g - 1 else fst g) :=
                       fixedGoLibraryExpr]\<rparr>)))"

definition FixFile :: "(expr \<Rightarrow> bool) \<Rightarrow> decompose \<Rightarrow> bfFile \<Rightarrow> bfFile" where
  "FixFile keep eld oldFile = squashCgoLibrary keep eld oldFile"

section \<open>The load fixer\<close>

definition knownLoads :: "(string \<times> string list) list" where
  "knownLoads =
     [(''@io_bazel_rules_go//go:def.bzl'',
       [''cgo_library'', ''go_binary'', ''go_library'', ''go_prefix'', ''go_test'']),
      (''@io_bazel_rules_go//proto:def.bzl'',
       [''go_grpc_library'', ''go_proto_library''])]"

text \<open>The two maps filled by \<^verbatim>\<open>init\<close>; a missing key of a Go map is \<open>None\<close>.\<close>

definition knownFiles :: "string \<Rightarrow> bool" where
  "knownFiles file = (file \<in> set (map fst knownLoads))"

definition knownKinds :: "string \<rightharpoonup> string" where
  "knownKinds = fold (\<lambda>l m. fold (\<lambda>k m'. m'(k \<mapsto> fst l)) (snd l) m) knownLoads Map.empty"

text \<open>
  What \<^verbatim>\<open>fixLoad\<close> returns is a pointer: its argument \<^verbatim>\<open>load\<close> itself
  (\<open>SameLoad\<close>; nil when the argument is nil), nil (\<open>NoLoad\<close>), or the address of the
  rewritten copy (\<open>FixedLoad\<close>). \<^verbatim>\<open>FixLoads\<close> compares these pointers
  (\<^verbatim>\<open>li.fixed != li.old\<close>) and tests them for nil.
\<close>

datatype loadResult = SameLoad | NoLoad | FixedLoad callExpr

record loadInfo =
  li_index :: nat
  li_file :: string
  li_old :: callExpr
  li_fixed :: loadResult

text \<open>
  A Go set \<^verbatim>\<open>map[string]bool\<close> that is only ever assigned \<^verbatim>\<open>true\<close> is the set
  of its keys. The sets of \<^verbatim>\<open>usedKinds\<close> are ranged over by \<^verbatim>\<open>fixLoad\<close>, so
  they are lists without repetition, a nil map being \<open>None\<close>; Go leaves the order of
  that range open, and \<open>fixLoad_kinds_order\<close> shows the result does not depend on it.
\<close>

type_synonym kinds = "string list option"

definition inKinds :: "kinds \<Rightarrow> string \<Rightarrow> bool" where
  "inKinds kinds k = (case kinds of None \<Rightarrow> False | Some ks \<Rightarrow> k \<in> set ks)"

text \<open>The first loop of \<^verbatim>\<open>fixLoad\<close> (lines 446 to 457), over \<^verbatim>\<open>fixed.List[1:]\<close>.\<close>

fun splitArgs ::
  "kinds \<Rightarrow> expr list \<Rightarrow> expr list \<times> expr list \<times> string set \<times> nat
     \<Rightarrow> expr list \<times> expr list \<times> string set \<times> nat" where
  "splitArgs kinds [] st = st"
| "splitArgs kinds (arg # args) (symbols, otherArgs, loadedKinds, removed) =
     (case asStringExpr arg of
        Some v \<Rightarrow>
          if knownKinds v = None \<or> inKinds kinds v
          then splitArgs kinds args (symbols @ [arg], otherArgs, insert v loadedKinds, removed)
          else splitArgs kinds args (symbols, otherArgs, loadedKinds, Suc removed)
      | None \<Rightarrow> splitArgs kinds args (symbols, otherArgs @ [arg], loadedKinds, removed))"

text \<open>The second loop (lines 458 to 465): the kinds that are not loaded yet.\<close>

fun addKinds :: "string list \<Rightarrow> string set \<Rightarrow> expr list \<times> nat \<Rightarrow> expr list \<times> nat" where
  "addKinds [] loadedKinds st = st"
| "addKinds (kind # ks) loadedKinds (symbols, added) =
     (if kind \<notin> loadedKinds
      then addKinds ks loadedKinds (symbols @ [StringExpr noComments kind], Suc added)
      else addKinds ks loadedKinds (symbols, added))"

fun stringValue :: "expr \<Rightarrow> string" where
  "stringValue (StringExpr c v) = v"
| "stringValue _ = []"

text \<open>
  \<^verbatim>\<open>fixLoad\<close>. The slice \<^verbatim>\<open>fixed.List[1:]\<close> needs a first argument: the
  statements \<^verbatim>\<open>FixLoads\<close> passes have one (\<open>scanLoads_nonempty\<close>), and the new
  statement has the file label. \<^verbatim>\<open>sort.Stable\<close> by \<^verbatim>\<open>Value\<close> is \<open>sort_key\<close>,
  the stable insertion sort, on the byte order of strings.
\<close>

definition newLoad :: "string \<Rightarrow> callExpr" where
  "newLoad file = \<lparr>cComments = noComments, cX = LiteralExpr noComments ''load'',
                   cList = [StringExpr noComments file], cForceCompact = True\<rparr>"

definition fixLoad :: "callExpr option \<Rightarrow> string \<Rightarrow> kinds \<Rightarrow> loadResult" where
  "fixLoad load file kinds =
     (let fixed = (case load of None \<Rightarrow> newLoad file | Some l \<Rightarrow> l);
          (symbols, otherArgs, loadedKinds, removed) =
             splitArgs kinds (drop 1 (cList fixed)) ([], [], {}, 0);
          (symbols', added) =
             (case kinds of
                None \<Rightarrow> (symbols, 0)
              | Some ks \<Rightarrow> addKinds ks loadedKinds (symbols, 0))
      in if added = 0 \<and> removed = 0
         then (case load of
                 None \<Rightarrow> SameLoad
               | Some l \<Rightarrow> if length (cList l) = 1 then NoLoad else SameLoad)
         else (let list = take 1 (cList fixed) @ sort_key stringValue symbols' @ otherArgs
               in if length list = 1 then NoLoad else FixedLoad (fixed\<lparr>cList := list\<rparr>)))"

text \<open>The first loop of \<^verbatim>\<open>FixLoads\<close> (lines 265 to 300).\<close>

fun otherLoaded :: "expr \<Rightarrow> string set \<Rightarrow> string set" where
  "otherLoaded (StringExpr c v) other = insert v other"
| "otherLoaded (BinaryExpr c x op y) other =
     (if op \<noteq> ''='' then other
      else case asLiteralExpr x of Some t \<Rightarrow> insert t other | None \<Rightarrow> other)"
| "otherLoaded _ other = other"

fun scanLoads ::
  "nat \<Rightarrow> expr list \<Rightarrow> loadInfo list \<times> string set \<Rightarrow> loadInfo list \<times> string set" where
  "scanLoads i [] st = st"
| "scanLoads i (stmt # stmts) (loads, otherLoadedKinds) =
     (case asCallExpr stmt of
        None \<Rightarrow> scanLoads (Suc i) stmts (loads, otherLoadedKinds)
      | Some c \<Rightarrow>
          if asLiteralExpr (cX c) \<noteq> Some ''load''
          then scanLoads (Suc i) stmts (loads, otherLoadedKinds)
          else (case cList c of
                  [] \<Rightarrow> scanLoads (Suc i) stmts (loads, otherLoadedKinds)
                | a # args \<Rightarrow>
                    (case asStringExpr a of
                       None \<Rightarrow> scanLoads (Suc i) stmts (loads, otherLoadedKinds)
                     | Some label \<Rightarrow>
                         if knownFiles label
                         then scanLoads (Suc i) stmts
                                (loads @ [\<lparr>li_index = i, li_file = label, li_old = c,
                                           li_fixed = NoLoad\<rparr>],
                                 otherLoadedKinds)
                         else scanLoads (Suc i) stmts
                                (loads, fold otherLoaded args otherLoadedKinds))))"

text \<open>The second loop (lines 303 to 321).\<close>

fun useKinds ::
  "string set \<Rightarrow> expr list \<Rightarrow> (string \<rightharpoonup> string list) \<Rightarrow> (string \<rightharpoonup> string list)" where
  "useKinds otherLoadedKinds [] usedKinds = usedKinds"
| "useKinds otherLoadedKinds (stmt # stmts) usedKinds =
     (case asCallExpr stmt of
        None \<Rightarrow> useKinds otherLoadedKinds stmts usedKinds
      | Some c \<Rightarrow>
          (case asLiteralExpr (cX c) of
             None \<Rightarrow> useKinds otherLoadedKinds stmts usedKinds
           | Some kind \<Rightarrow>
               (case knownKinds kind of
                  None \<Rightarrow> useKinds otherLoadedKinds stmts usedKinds
                | Some file \<Rightarrow>
                    if kind \<in> otherLoadedKinds
                    then useKinds otherLoadedKinds stmts usedKinds
                    else useKinds otherLoadedKinds stmts
                           (usedKinds(file \<mapsto>
                              (case usedKinds file of
                                 None \<Rightarrow> [kind]
                               | Some ks \<Rightarrow> if kind \<in> set ks then ks else ks @ [kind]))))))"

text \<open>
  The loop over \<^verbatim>\<open>loads\<close> inside the loop over \<^verbatim>\<open>knownLoads\<close> (lines 330 to
  342), for one file: it returns the loads with \<^verbatim>\<open>fixed\<close> set, \<^verbatim>\<open>first\<close> and
  \<^verbatim>\<open>changed\<close>.
\<close>

fun fixLoadsOf ::
  "string \<Rightarrow> kinds \<Rightarrow> loadInfo list \<Rightarrow> bool \<Rightarrow> bool \<Rightarrow> loadInfo list \<times> bool \<times> bool" where
  "fixLoadsOf file kinds [] first changed = ([], first, changed)"
| "fixLoadsOf file kinds (li # loads) first changed =
     (if li_file li \<noteq> file
      then (case fixLoadsOf file kinds loads first changed of
              (loads', first', changed') \<Rightarrow> (li # loads', first', changed'))
      else (let fixed = fixLoad (Some (li_old li)) file (if first then kinds else None)
            in case fixLoadsOf file kinds loads False (changed \<or> fixed \<noteq> SameLoad) of
                 (loads', first', changed') \<Rightarrow>
                   (li\<lparr>li_fixed := fixed\<rparr> # loads', first', changed')))"

text \<open>The loop over \<^verbatim>\<open>knownLoads\<close> (lines 327 to 350).\<close>

fun fixKnownLoads ::
  "(string \<rightharpoonup> string list) \<Rightarrow> (string \<times> string list) list \<Rightarrow>
     loadInfo list \<times> bool \<times> callExpr list \<Rightarrow> loadInfo list \<times> bool \<times> callExpr list" where
  "fixKnownLoads usedKinds [] st = st"
| "fixKnownLoads usedKinds (l # ls) (loads, changed, newFirstLoads) =
     (case fixLoadsOf (fst l) (usedKinds (fst l)) loads True changed of
        (loads', first, changed') \<Rightarrow>
          if first
          then (case fixLoad None (fst l) (usedKinds (fst l)) of
                  FixedLoad load \<Rightarrow>
                    fixKnownLoads usedKinds ls (loads', True, newFirstLoads @ [load])
                | _ \<Rightarrow> fixKnownLoads usedKinds ls (loads', changed', newFirstLoads))
          else fixKnownLoads usedKinds ls (loads', changed', newFirstLoads))"

text \<open>The last loop (lines 361 to 371); \<open>loads\<close> is \<^verbatim>\<open>loads[loadIndex:]\<close>.\<close>

fun emitLoad :: "loadInfo \<Rightarrow> expr list" where
  "emitLoad li =
     (case li_fixed li of
        NoLoad \<Rightarrow> []
      | SameLoad \<Rightarrow> [CallOf (li_old li)]
      | FixedLoad c \<Rightarrow> [CallOf c])"

fun rebuild :: "nat \<Rightarrow> expr list \<Rightarrow> loadInfo list \<Rightarrow> expr list" where
  "rebuild i [] loads = []"
| "rebuild i (stmt # stmts) [] = stmt # rebuild (Suc i) stmts []"
| "rebuild i (stmt # stmts) (li # loads) =
     (if i = li_index li then emitLoad li @ rebuild (Suc i) stmts loads
      else stmt # rebuild (Suc i) stmts (li # loads))"

definition FixLoads :: "bfFile \<Rightarrow> bfFile" where
  "FixLoads oldFile =
     (case scanLoads 0 (Stmt oldFile) ([], {}) of
        (loads, otherLoadedKinds) \<Rightarrow>
          (case fixKnownLoads (useKinds otherLoadedKinds (Stmt oldFile) Map.empty)
                  knownLoads (loads, False, []) of
             (loads', changed, newFirstLoads) \<Rightarrow>
               if \<not> changed then oldFile
               else oldFile\<lparr>Stmt := map CallOf newFirstLoads @ rebuild 0 (Stmt oldFile) loads'\<rparr>))"

section \<open>The load fixer, statement by statement\<close>

text \<open>
  The notions below restate the loops of \<^verbatim>\<open>fixLoad\<close> and \<^verbatim>\<open>FixLoads\<close> one
  argument and one statement at a time; each is proved equal to the loop it restates.
\<close>

definition keepsSymbol :: "kinds \<Rightarrow> expr \<Rightarrow> bool" where
  "keepsSymbol kinds arg =
     (case asStringExpr arg of None \<Rightarrow> False | Some v \<Rightarrow> knownKinds v = None \<or> inKinds kinds v)"

definition dropsSymbol :: "kinds \<Rightarrow> expr \<Rightarrow> bool" where
  "dropsSymbol kinds arg =
     (case asStringExpr arg of None \<Rightarrow> False | Some v \<Rightarrow> knownKinds v \<noteq> None \<and> \<not> inKinds kinds v)"

definition missingKinds :: "kinds \<Rightarrow> expr list \<Rightarrow> string list" where
  "missingKinds kinds args =
     (case kinds of
        None \<Rightarrow> []
      | Some ks \<Rightarrow> filter (\<lambda>k. k \<notin> stringValue ` set (filter (keepsSymbol kinds) args)) ks)"

text \<open>The argument list that \<^verbatim>\<open>fixLoad\<close> writes is left as it is by \<^verbatim>\<open>fixLoad\<close>.\<close>

definition fixedArgs :: "kinds \<Rightarrow> expr list \<Rightarrow> expr list" where
  "fixedArgs kinds args =
     sort_key stringValue
       (filter (keepsSymbol kinds) args @ map (StringExpr noComments) (missingKinds kinds args)) @
     filter (\<lambda>a. asStringExpr a = None) args"

text \<open>A statement that the first loop of \<^verbatim>\<open>FixLoads\<close> records as a load of a known file.\<close>

definition managedLoad :: "expr \<Rightarrow> (string \<times> callExpr) option" where
  "managedLoad stmt =
     (case asCallExpr stmt of
        None \<Rightarrow> None
      | Some c \<Rightarrow>
          if asLiteralExpr (cX c) \<noteq> Some ''load'' then None
          else (case cList c of
                  [] \<Rightarrow> None
                | a # args \<Rightarrow>
                    (case asStringExpr a of
                       None \<Rightarrow> None
                     | Some label \<Rightarrow> if knownFiles label then Some (label, c) else None)))"

text \<open>What one statement adds to \<^verbatim>\<open>otherLoadedKinds\<close>.\<close>

definition otherLoads :: "expr \<Rightarrow> string set \<Rightarrow> string set" where
  "otherLoads stmt other =
     (case asCallExpr stmt of
        None \<Rightarrow> other
      | Some c \<Rightarrow>
          if asLiteralExpr (cX c) \<noteq> Some ''load'' then other
          else (case cList c of
                  [] \<Rightarrow> other
                | a # args \<Rightarrow>
                    (case asStringExpr a of
                       None \<Rightarrow> other
                     | Some label \<Rightarrow>
                         if knownFiles label then other else fold otherLoaded args other)))"

fun managedLoads :: "nat \<Rightarrow> expr list \<Rightarrow> loadInfo list" where
  "managedLoads i [] = []"
| "managedLoads i (stmt # stmts) =
     (case managedLoad stmt of
        None \<Rightarrow> managedLoads (Suc i) stmts
      | Some m \<Rightarrow>
          \<lparr>li_index = i, li_file = fst m, li_old = snd m, li_fixed = NoLoad\<rparr> #
            managedLoads (Suc i) stmts)"

text \<open>
  The loads after the files in \<open>D\<close> have been fixed; \<open>K\<close> gives the kinds the next load
  of each file is fixed with: the used kinds for its first load, nil afterwards.
\<close>

definition afterLoad :: "(string \<Rightarrow> kinds) \<Rightarrow> string \<Rightarrow> string \<Rightarrow> kinds" where
  "afterLoad K file = K(file := None)"

fun fixSome :: "(string \<Rightarrow> kinds) \<Rightarrow> string set \<Rightarrow> loadInfo list \<Rightarrow> loadInfo list" where
  "fixSome K D [] = []"
| "fixSome K D (li # loads) =
     (if li_file li \<in> D
      then li\<lparr>li_fixed := fixLoad (Some (li_old li)) (li_file li) (K (li_file li))\<rparr>
      else li) # fixSome (afterLoad K (li_file li)) D loads"

text \<open>Some load of a file in \<open>S\<close> is not left as it is.\<close>

definition changedFor :: "(string \<Rightarrow> kinds) \<Rightarrow> string set \<Rightarrow> loadInfo list \<Rightarrow> bool" where
  "changedFor K S loads =
     (\<exists>li \<in> set (fixSome K UNIV loads). li_file li \<in> S \<and> li_fixed li \<noteq> SameLoad)"

fun emitResult :: "callExpr \<Rightarrow> loadResult \<Rightarrow> expr list" where
  "emitResult c NoLoad = []"
| "emitResult c SameLoad = [CallOf c]"
| "emitResult c (FixedLoad c') = [CallOf c']"

fun fixStmts :: "(string \<Rightarrow> kinds) \<Rightarrow> expr list \<Rightarrow> expr list" where
  "fixStmts K [] = []"
| "fixStmts K (stmt # stmts) =
     (case managedLoad stmt of
        None \<Rightarrow> stmt # fixStmts K stmts
      | Some m \<Rightarrow>
          emitResult (snd m) (fixLoad (Some (snd m)) (fst m) (K (fst m))) @
            fixStmts (afterLoad K (fst m)) stmts)"

text \<open>The new load statements, for the files of \<open>files\<close> that have no load in \<open>M\<close>.\<close>

fun newLoads :: "(string \<Rightarrow> kinds) \<Rightarrow> string set \<Rightarrow> string list \<Rightarrow> callExpr list" where
  "newLoads U M [] = []"
| "newLoads U M (file # files) =
     (if file \<in> M then []
      else case fixLoad None file (U file) of FixedLoad c \<Rightarrow> [c] | _ \<Rightarrow> []) @
     newLoads U M files"

definition otherLoadedKindsOf :: "expr list \<Rightarrow> string set" where
  "otherLoadedKindsOf stmts = snd (scanLoads 0 stmts ([], {}))"

definition usedKindsOf :: "expr list \<Rightarrow> string \<Rightarrow> kinds" where
  "usedKindsOf stmts = useKinds (otherLoadedKindsOf stmts) stmts Map.empty"

definition managedFiles :: "expr list \<Rightarrow> string set" where
  "managedFiles stmts = li_file ` set (managedLoads 0 stmts)"

text \<open>The kind of a top-level call, and what one statement adds to \<^verbatim>\<open>usedKinds\<close>.\<close>

definition calleeKind :: "expr \<Rightarrow> string option" where
  "calleeKind stmt = (case asCallExpr stmt of None \<Rightarrow> None | Some c \<Rightarrow> asLiteralExpr (cX c))"

definition calleeKinds :: "expr list \<Rightarrow> string set" where
  "calleeKinds stmts = {kind. Some kind \<in> calleeKind ` set stmts}"

definition useKind ::
  "string set \<Rightarrow> expr \<Rightarrow> (string \<rightharpoonup> string list) \<Rightarrow> (string \<rightharpoonup> string list)" where
  "useKind other stmt usedKinds =
     (case calleeKind stmt of
        None \<Rightarrow> usedKinds
      | Some kind \<Rightarrow>
          (case knownKinds kind of
             None \<Rightarrow> usedKinds
           | Some file \<Rightarrow>
               if kind \<in> other then usedKinds
               else usedKinds(file \<mapsto>
                      (case usedKinds file of
                         None \<Rightarrow> [kind]
                       | Some ks \<Rightarrow> if kind \<in> set ks then ks else ks @ [kind]))))"

text \<open>The kinds for the next load of each file, after the statements \<open>stmts\<close>.\<close>

definition afterLoads :: "(string \<Rightarrow> kinds) \<Rightarrow> expr list \<Rightarrow> string \<Rightarrow> kinds" where
  "afterLoads K stmts = (\<lambda>file. if file \<in> managedFiles stmts then None else K file)"

text \<open>
  The registry symbols that the load statements of \<open>stmts\<close> load from \<open>file\<close> by a
  string argument.
\<close>

definition loadedSymbols :: "expr list \<Rightarrow> string \<Rightarrow> string set" where
  "loadedSymbols stmts file =
     {v. \<exists>s \<in> set stmts. \<exists>c. managedLoad s = Some (file, c) \<and>
           (\<exists>a \<in> set (drop 1 (cList c)). asStringExpr a = Some v \<and> knownKinds v \<noteq> None)}"

text \<open>All the strings that the load statements of \<open>stmts\<close> load from \<open>file\<close>.\<close>

definition loadedStrings :: "expr list \<Rightarrow> string \<Rightarrow> string set" where
  "loadedStrings stmts file =
     {v. \<exists>s \<in> set stmts. \<exists>c. managedLoad s = Some (file, c) \<and>
           (\<exists>a \<in> set (drop 1 (cList c)). asStringExpr a = Some v)}"

section \<open>The notions of the specification\<close>

text \<open>
  In the words of the specification, not of the loops: the externally loaded symbols are
  the symbols that the load statements of files outside the registry import, each by a
  bare string argument or by a keyword argument \<^verbatim>\<open>name = symbol\<close>, which brings in
  the name. They are compared with what the first loop of \<^verbatim>\<open>FixLoads\<close> collects.
\<close>

fun importedName :: "expr \<Rightarrow> string option" where
  "importedName (StringExpr c v) = Some v"
| "importedName (BinaryExpr c (LiteralExpr c' name) op y) =
     (if op = ''='' then Some name else None)"
| "importedName _ = None"

fun externalLoadArgs :: "expr \<Rightarrow> expr list" where
  "externalLoadArgs (CallExpr c (LiteralExpr c' token) (StringExpr c'' label # args) fc) =
     (if token = ''load'' \<and> \<not> knownFiles label then args else [])"
| "externalLoadArgs _ = []"

definition externallyLoaded :: "expr list \<Rightarrow> string set" where
  "externallyLoaded stmts =
     set (List.map_filter importedName (concat (map externalLoadArgs stmts)))"

text \<open>
  A managed symbol is an argument that names a kind of the registry. In a load
  statement the managed symbols come first and sorted when the arguments after the file
  label are the managed symbols, sorted by value, followed by all the other arguments.
\<close>

definition managedSymbol :: "expr \<Rightarrow> bool" where
  "managedSymbol a = (case asStringExpr a of None \<Rightarrow> False | Some v \<Rightarrow> knownKinds v \<noteq> None)"

definition managedSymbolsFirst :: "callExpr \<Rightarrow> bool" where
  "managedSymbolsFirst c =
     (let args = drop 1 (cList c)
      in sorted (map stringValue (filter managedSymbol args)) \<and>
         args = filter managedSymbol args @ filter (\<lambda>a. \<not> managedSymbol a) args)"

section \<open>Example inputs\<close>

text \<open>The select dictionary \<^verbatim>\<open>{"a": [v]}\<close>.\<close>

definition dictA :: "string \<Rightarrow> dictExpr" where
  "dictA v = \<lparr>dComments = noComments,
     dList = [KeyValueExpr noComments (StringExpr noComments ''a'')
                (ListExpr noComments [StringExpr noComments v])]\<rparr>"

text \<open>Shorthands for nodes without comments.\<close>

definition str :: "string \<Rightarrow> expr" where
  "str v = StringExpr noComments v"

definition attr :: "string \<Rightarrow> expr \<Rightarrow> expr" where
  "attr key val = BinaryExpr noComments (LiteralExpr noComments key) ''='' val"

definition call :: "string \<Rightarrow> expr list \<Rightarrow> expr" where
  "call kind args = CallExpr noComments (LiteralExpr noComments kind) args False"

text \<open>No node has a keep comment.\<close>

definition noKeep :: "expr \<Rightarrow> bool" where
  "noKeep e = False"

text \<open>\<^verbatim>\<open>cgo_library(name = "cgo_default_library", srcs = ["a.go"])\<close>, once and twice.\<close>

definition cgoRule :: expr where
  "cgoRule = call ''cgo_library''
     [attr ''name'' (str ''cgo_default_library''),
      attr ''srcs'' (ListExpr noComments [str ''a.go''])]"

definition oneCgoFile :: bfFile where
  "oneCgoFile = \<lparr>Path = ''BUILD'', Stmt = [cgoRule]\<rparr>"

definition twoCgoFile :: bfFile where
  "twoCgoFile = \<lparr>Path = ''BUILD'', Stmt = [cgoRule, cgoRule]\<rparr>"

text \<open>
  A go_library with \<^verbatim>\<open>deps = ["//y"]\<close> and a cgo_library whose \<^verbatim>\<open>deps\<close> is the
  string \<^verbatim>\<open>"x"\<close>, which is none of the shapes \<^verbatim>\<open>squashExpr\<close> takes, and that has
  a \<^verbatim>\<open>linkstamp\<close> attribute.
\<close>

definition goRule :: callExpr where
  "goRule = \<lparr>cComments = noComments, cX = LiteralExpr noComments ''go_library'',
     cList = [attr ''name'' (str ''go_default_library''),
              attr ''deps'' (ListExpr noComments [str ''//y''])],
     cForceCompact = False\<rparr>"

definition badCgoRule :: callExpr where
  "badCgoRule = \<lparr>cComments = noComments, cX = LiteralExpr noComments ''cgo_library'',
     cList = [attr ''name'' (str ''cgo_default_library''),
              attr ''deps'' (str ''x''),
              attr ''srcs'' (ListExpr noComments [str ''a.go'']),
              attr ''linkstamp'' (str ''z'')],
     cForceCompact = False\<rparr>"

definition mixedFile :: bfFile where
  "mixedFile = \<lparr>Path = ''BUILD'', Stmt = [CallOf goRule, CallOf badCgoRule]\<rparr>"

text \<open>\<^verbatim>\<open>load(file, args...)\<close>, as the parser gives it.\<close>

definition defBzl :: string where
  "defBzl = ''@io_bazel_rules_go//go:def.bzl''"

definition loadOf :: "string \<Rightarrow> expr list \<Rightarrow> callExpr" where
  "loadOf file args = \<lparr>cComments = noComments, cX = LiteralExpr noComments ''load'',
     cList = str file # args, cForceCompact = False\<rparr>"

text \<open>A file that loads \<^verbatim>\<open>go_embed_data\<close>, which is not in the registry, by hand.\<close>

definition manualFile :: bfFile where
  "manualFile = \<lparr>Path = ''BUILD'', Stmt = [CallOf (loadOf defBzl [str ''go_embed_data''])]\<rparr>"

text \<open>A file that loads \<^verbatim>\<open>cgo_library\<close> and calls \<^verbatim>\<open>go_library\<close> only.\<close>

definition goLibraryX :: expr where
  "goLibraryX = call ''go_library'' [attr ''name'' (str ''x'')]"


text \<open>A file that calls \<^verbatim>\<open>go_test\<close> and \<^verbatim>\<open>go_library\<close> and has no load.\<close>

definition usesFile :: bfFile where
  "usesFile = \<lparr>Path = ''BUILD'',
     Stmt = [call ''go_test'' [attr ''name'' (str ''t'')], goLibraryX]\<rparr>"

text \<open>
  \<^verbatim>\<open>load(def.bzl, "go_test", x = "y", "go_library", "aaa_custom")\<close>: two registry
  symbols, a keyword argument and a string that is not in the registry.
\<close>

definition mixedLoad :: callExpr where
  "mixedLoad = loadOf defBzl
     [str ''go_test'', attr ''x'' (str ''y''), str ''go_library'', str ''aaa_custom'']"

text \<open>A file that loads \<^verbatim>\<open>go_library\<close> from a file outside the registry and calls it.\<close>

definition externalFile :: bfFile where
  "externalFile = \<lparr>Path = ''BUILD'',
     Stmt = [CallOf (loadOf ''//tools:other.bzl'' [str ''go_library'']), goLibraryX]\<rparr>"

text \<open>
  \<^verbatim>\<open>load(def.bzl, "zzz", "aaa", "go_test")\<close> in a file that calls \<^verbatim>\<open>go_binary\<close>
  only: two strings that are not in the registry, and a registry symbol to replace.
\<close>

definition resortedFile :: bfFile where
  "resortedFile = \<lparr>Path = ''BUILD'',
     Stmt = [CallOf (loadOf defBzl [str ''zzz'', str ''aaa'', str ''go_test'']),
             call ''go_binary'' [attr ''name'' (str ''b'')]]\<rparr>"

text \<open>
  \<^verbatim>\<open>load(def.bzl, "go_test", "go_library")\<close> in a file that calls both: nothing to
  add and nothing to remove, and the symbols are not in order.
\<close>

definition unsortedFile :: bfFile where
  "unsortedFile = \<lparr>Path = ''BUILD'',
     Stmt = [CallOf (loadOf defBzl [str ''go_test'', str ''go_library'']),
             call ''go_test'' [attr ''name'' (str ''t'')], goLibraryX]\<rparr>"

text \<open>\<^verbatim>\<open>load(x, "go_library")\<close>, whose first argument is not a string.\<close>

definition oddLoad :: callExpr where
  "oddLoad = \<lparr>cComments = noComments, cX = LiteralExpr noComments ''load'',
     cList = [LiteralExpr noComments ''x'', str ''go_library''], cForceCompact = False\<rparr>"

section \<open>Properties of the squash engine\<close>

text \<open>
  The loop over the entries of \<open>y\<close> appends every one of them: an entry that is a
  key/value pair is not a string, so the second type assertion fails and the branch
  that merges two values is never taken.
\<close>

lemma squashEntries_appends:
  "squashEntries eld idx xl squashed ys = Inr (squashed @ ys)"
proof (induction ys arbitrary: squashed)
  case Nil
  show ?case by simp
next
  case (Cons e es)
  show ?case
  proof (cases "asKeyValueExpr e")
    case None
    then show ?thesis using Cons by simp
  next
    case (Some kv)
    then have "asStringExpr e = None" by (rule asKeyValue_not_String)
    with Some show ?thesis using Cons by simp
  qed
qed

lemma squashDict_appends:
  "squashDict eld (Some x) (Some y) =
     Inr (Some \<lparr>dComments =
                  \<lparr>cmBefore = cmBefore (dComments x) @ cmBefore (dComments y),
                   cmSuffix = cmSuffix (dComments x) @ cmSuffix (dComments y),
                   cmAfter = cmAfter (dComments x) @ cmAfter (dComments y)\<rparr>,
                dList = dList x @ dList y\<rparr>)"
  by (simp add: squashEntries_appends)

text \<open>
  C1. The claim has \<^verbatim>\<open>squashDict\<close> merge the values of a key that both
  dictionaries have, at the position of the key in \<open>x\<close>, and append only the entries
  of \<open>y\<close> whose key is new. The code, run on \<^verbatim>\<open>{"a": ["1"]}\<close> and
  \<^verbatim>\<open>{"a": ["2"]}\<close>, returns a dictionary with the key \<^verbatim>\<open>"a"\<close> twice: the entry
  of \<open>y\<close> is appended and the entry of \<open>x\<close> is left as it was, whatever the
  decomposition \<open>eld\<close> is.
\<close>

theorem squashDict_duplicates_key:
  "squashDict eld (Some (dictA ''1'')) (Some (dictA ''2'')) =
     Inr (Some \<lparr>dComments = noComments,
       dList = [KeyValueExpr noComments (StringExpr noComments ''a'')
                  (ListExpr noComments [StringExpr noComments ''1'']),
                KeyValueExpr noComments (StringExpr noComments ''a'')
                  (ListExpr noComments [StringExpr noComments ''2''])]\<rparr>)"
  by (simp add: dictA_def noComments_def)

text \<open>
  C5. \<^verbatim>\<open>squashList\<close> returns \<open>y\<close> when \<open>x\<close> is nil and \<open>x\<close> when \<open>y\<close> is nil.
  Otherwise the result has the elements of \<open>x\<close> followed by the elements of \<open>y\<close>, as
  they are, so there are as many of them as in both inputs together, and each of its
  three comment groups is the group of \<open>x\<close> followed by the group of \<open>y\<close>.
\<close>

theorem squashList_concat:
  "squashList None y = y \<and> squashList x None = x \<and>
   squashList (Some x') (Some y') =
     Some \<lparr>lComments =
             \<lparr>cmBefore = cmBefore (lComments x') @ cmBefore (lComments y'),
              cmSuffix = cmSuffix (lComments x') @ cmSuffix (lComments y'),
              cmAfter = cmAfter (lComments x') @ cmAfter (lComments y')\<rparr>,
           lList = lList x' @ lList y'\<rparr> \<and>
   map_option (\<lambda>l. length (lList l)) (squashList (Some x') (Some y')) =
     Some (length (lList x') + length (lList y'))"
  by (simp add: squashList_def split: option.splits)

section \<open>Properties of the rule view\<close>

lemma isAttr_cases:
  "isAttr key e \<longleftrightarrow> (\<exists>c kc y. e = BinaryExpr c (LiteralExpr kc key) ''='' y)"
  by (induction key e rule: isAttr.induct) auto

lemma isAttr_setValue: "isAttr k (setValue e v) = isAttr k e"
  by (induction k e rule: isAttr.induct) auto

lemma attrValue_setValue: "isAttr k e \<Longrightarrow> attrValue (setValue e v) = Some v"
  by (auto simp: isAttr_cases)

lemma isAttr_unique: "isAttr k e \<Longrightarrow> isAttr k' e \<Longrightarrow> k' = k"
  by (auto simp: isAttr_cases)

lemma attrOf_setAttrIn:
  "attrOf k' (setAttrIn k v es) = (if k' = k then Some v else attrOf k' es)"
proof (induction es)
  case Nil
  show ?case by simp
next
  case (Cons e es)
  show ?case
  proof (cases "isAttr k e")
    case True
    then show ?thesis
      by (auto simp: isAttr_setValue attrValue_setValue dest: isAttr_unique)
  next
    case False
    then show ?thesis using Cons by auto
  qed
qed

lemma attrOf_delAttrIn: "k' \<noteq> k \<Longrightarrow> attrOf k' (delAttrIn k es) = attrOf k' es"
  by (induction es) (auto dest: isAttr_unique)

lemma Attr_SetAttr: "Attr (SetAttr r k v) k' = (if k' = k then Some v else Attr r k')"
  by (simp add: Attr_def SetAttr_def attrOf_setAttrIn)

lemma Attr_DelAttr: "k' \<noteq> k \<Longrightarrow> Attr (DelAttr r k) k' = Attr r k'"
  by (simp add: Attr_def DelAttr_def attrOf_delAttrIn)

lemma Attr_cComments: "Attr (r\<lparr>cComments := c\<rparr>) k = Attr r k"
  by (simp add: Attr_def)

lemma Kind_SetAttr: "Kind (SetAttr r k v) = Kind r"
  by (simp add: Kind_def SetAttr_def)

lemma Kind_DelAttr: "Kind (DelAttr r k) = Kind r"
  by (simp add: Kind_def DelAttr_def)

lemma asCallExpr_CallOf: "asCallExpr (CallOf c) = Some c"
  by (simp add: CallOf_def)

lemma asCallExpr_Some: "asCallExpr stmt = Some c \<Longrightarrow> stmt = CallOf c"
  by (cases stmt) (auto simp: CallOf_def)

section \<open>Properties of the cgo_library fixer\<close>

lemma Kind_squashAttrs: "Kind (squashAttrs eld cgo keys r) = Kind r"
  by (induction keys arbitrary: r) (auto simp: Kind_SetAttr split: option.splits sum.splits)

lemma Kind_prepareGoLibrary: "Kind (prepareGoLibrary cgo r) = Kind r"
  by (simp add: prepareGoLibrary_def Let_def Kind_def SetAttr_def DelAttr_def)

lemma Kind_newGoLibrary: "Kind (newGoLibrary cgo) = ''go_library''"
  by (simp add: newGoLibrary_def Let_def Kind_def SetAttr_def split: option.splits)

lemma Attr_squashAttrs_other:
  "key \<notin> set keys \<Longrightarrow> Attr (squashAttrs eld cgo keys r) key = Attr r key"
  by (induction keys arbitrary: r) (auto simp: Attr_SetAttr split: option.splits sum.splits)

lemma find_cgo_acc:
  "cgo \<noteq> None \<Longrightarrow> fst (findDefaultRules keep i ss cgo go) = cgo"
  by (induction ss arbitrary: i go) (auto split: option.splits)

lemma find_cgo_none:
  "filter (defaultCgoStmt keep) ss = [] \<Longrightarrow> fst (findDefaultRules keep i ss cgo go) = cgo"
proof (induction ss arbitrary: i go)
  case Nil
  show ?case by simp
next
  case (Cons s ss)
  from Cons.prems have a: "\<not> defaultCgoStmt keep s" and b: "filter (defaultCgoStmt keep) ss = []"
    by (auto split: if_splits)
  show ?case using a Cons.IH[OF b]
    by (auto simp: defaultCgoStmt_def split: option.splits)
qed

lemma find_cgo_first:
  "fst (findDefaultRules keep i ss None go) = Some (ci, c) \<Longrightarrow>
   \<exists>pre post. ss = pre @ CallOf c # post \<and> ci = i + length pre \<and>
     isDefaultCgoLibrary keep c \<and> filter (defaultCgoStmt keep) pre = []"
proof (induction ss arbitrary: i go)
  case Nil
  then show ?case by simp
next
  case (Cons s ss)
  show ?case
  proof (cases "defaultCgoStmt keep s")
    case True
    then obtain c' where c': "asCallExpr s = Some c'" "isDefaultCgoLibrary keep c'"
      by (auto simp: defaultCgoStmt_def split: option.splits)
    with Cons.prems have "Some (i, c') = Some (ci, c)"
      by (simp add: find_cgo_acc)
    then have "ci = i" "c' = c" by auto
    with c' have "s # ss = [] @ CallOf c # ss \<and> ci = i + length ([]::expr list) \<and>
      isDefaultCgoLibrary keep c \<and> filter (defaultCgoStmt keep) [] = []"
      by (auto dest: asCallExpr_Some)
    then show ?thesis by blast
  next
    case False
    then have "fst (findDefaultRules keep (Suc i) ss None
        (snd (findDefaultRules keep i [s] None go))) = Some (ci, c)"
      using Cons.prems by (auto simp: defaultCgoStmt_def split: option.splits if_splits)
    from Cons.IH[OF this] obtain pre post where
      "ss = pre @ CallOf c # post" "ci = Suc i + length pre" "isDefaultCgoLibrary keep c"
      "filter (defaultCgoStmt keep) pre = []" by blast
    then have "s # ss = (s # pre) @ CallOf c # post \<and> ci = i + length (s # pre) \<and>
      isDefaultCgoLibrary keep c \<and> filter (defaultCgoStmt keep) (s # pre) = []"
      using False by simp
    then show ?thesis by blast
  qed
qed

lemma find_cgo_None_filter:
  "fst (findDefaultRules keep i ss None go) = None \<Longrightarrow> filter (defaultCgoStmt keep) ss = []"
proof (induction ss arbitrary: i go)
  case Nil
  show ?case by simp
next
  case (Cons s ss)
  show ?case
  proof (cases "defaultCgoStmt keep s")
    case True
    then show ?thesis using Cons.prems
      by (auto simp: defaultCgoStmt_def find_cgo_acc split: option.splits)
  next
    case False
    then have "fst (findDefaultRules keep (Suc i) ss None
        (snd (findDefaultRules keep i [s] None go))) = None"
      using Cons.prems by (auto simp: defaultCgoStmt_def split: option.splits if_splits)
    from Cons.IH[OF this] show ?thesis using False by simp
  qed
qed

lemma find_go_acc:
  "go \<noteq> None \<Longrightarrow> snd (findDefaultRules keep i ss cgo go) = go"
  by (induction ss arbitrary: i cgo) (auto split: option.splits)

lemma find_go_first:
  "snd (findDefaultRules keep i ss cgo None) = Some (gi, g) \<Longrightarrow>
   \<exists>pre post. ss = pre @ CallOf g # post \<and> gi = i + length pre \<and>
     isDefaultGoLibrary g \<and> \<not> isDefaultCgoLibrary keep g"
proof (induction ss arbitrary: i cgo)
  case Nil
  then show ?case by simp
next
  case (Cons s ss)
  show ?case
  proof (cases "\<exists>c. asCallExpr s = Some c \<and> \<not> isDefaultCgoLibrary keep c \<and> isDefaultGoLibrary c")
    case True
    then obtain c' where c': "asCallExpr s = Some c'" "\<not> isDefaultCgoLibrary keep c'"
      "isDefaultGoLibrary c'" by blast
    with Cons.prems have "Some (i, c') = Some (gi, g)"
      by (simp add: find_go_acc)
    then have "gi = i" "c' = g" by auto
    with c' have "s # ss = [] @ CallOf g # ss \<and> gi = i + length ([]::expr list) \<and>
      isDefaultGoLibrary g \<and> \<not> isDefaultCgoLibrary keep g"
      by (auto dest: asCallExpr_Some)
    then show ?thesis by blast
  next
    case False
    then have "snd (findDefaultRules keep (Suc i) ss
        (fst (findDefaultRules keep i [s] cgo None)) None) = Some (gi, g)"
      using Cons.prems by (auto split: option.splits if_splits)
    from Cons.IH[OF this] obtain pre post where
      "ss = pre @ CallOf g # post" "gi = Suc i + length pre" "isDefaultGoLibrary g"
      "\<not> isDefaultCgoLibrary keep g" by blast
    then have "s # ss = (s # pre) @ CallOf g # post \<and> gi = i + length (s # pre) \<and>
      isDefaultGoLibrary g \<and> \<not> isDefaultCgoLibrary keep g"
      by simp
    then show ?thesis by blast
  qed
qed

lemma filter_update_nil: "filter P xs = [] \<Longrightarrow> \<not> P e \<Longrightarrow> filter P (xs[j := e]) = []"
  using set_update_subset_insert[of xs j e] by (auto simp: filter_empty_conv)

lemma squashCgoLibrary_noop:
  assumes "filter (defaultCgoStmt keep) (Stmt g) = []"
  shows "squashCgoLibrary keep eld g = g"
proof -
  have "fst (findDefaultRules keep 0 (Stmt g) None None) = None"
    using assms by (rule find_cgo_none)
  then show ?thesis
    by (cases "findDefaultRules keep 0 (Stmt g) None None") (simp add: squashCgoLibrary_def)
qed

lemma Kind_fixedGoLibraryOf:
  "(\<And>g. goLibrary = Some g \<Longrightarrow> Kind (snd g) = ''go_library'') \<Longrightarrow>
   Kind (fixedGoLibraryOf eld cgoLibrary goLibrary) = ''go_library''"
  by (auto simp: fixedGoLibraryOf_def Kind_squashAttrs Kind_prepareGoLibrary Kind_newGoLibrary
      split: option.splits)

lemma squashCgoLibrary_removes:
  assumes one: "length (filter (defaultCgoStmt keep) (Stmt f)) \<le> 1"
  shows "filter (defaultCgoStmt keep) (Stmt (squashCgoLibrary keep eld f)) = []"
proof -
  obtain cgo go where r: "findDefaultRules keep 0 (Stmt f) None None = (cgo, go)"
    by (cases "findDefaultRules keep 0 (Stmt f) None None")
  show ?thesis
  proof (cases cgo)
    case None
    then have "filter (defaultCgoStmt keep) (Stmt f) = []"
      using r find_cgo_None_filter[of keep 0 "Stmt f" None] by simp
    then show ?thesis by (simp add: squashCgoLibrary_noop)
  next
    case (Some p)
    obtain ci c where p: "p = (ci, c)" by (cases p)
    have "fst (findDefaultRules keep 0 (Stmt f) None None) = Some (ci, c)"
      using r Some p by simp
    from find_cgo_first[OF this] obtain pre post where
      ss: "Stmt f = pre @ CallOf c # post" and ci: "ci = length pre"
      and c: "isDefaultCgoLibrary keep c" and pre: "filter (defaultCgoStmt keep) pre = []"
      by auto
    have "defaultCgoStmt keep (CallOf c)"
      using c by (simp add: defaultCgoStmt_def asCallExpr_CallOf)
    then have post: "filter (defaultCgoStmt keep) post = []"
      using one ss pre by (auto simp: filter_empty_conv)
    have rem: "removeAt ci (Stmt f) = pre @ post"
      by (simp add: removeAt_def ss ci)
    have upd: "(Stmt f)[ci := e] = pre @ e # post" for e
      by (simp add: ss ci)
    have goKind: "Kind (snd g) = ''go_library''" if "go = Some g" for g
    proof -
      obtain gi g' where g: "g = (gi, g')" by (cases g)
      have "snd (findDefaultRules keep 0 (Stmt f) None None) = Some (gi, g')"
        using r that g by simp
      from find_go_first[OF this] show ?thesis
        using g by (auto simp: isDefaultGoLibrary_def)
    qed
    have "Kind (fixedGoLibraryOf eld c go) = ''go_library''"
      by (rule Kind_fixedGoLibraryOf) (rule goKind)
    then have R: "\<not> defaultCgoStmt keep (CallOf (fixedGoLibraryOf eld c go))"
      by (simp add: defaultCgoStmt_def asCallExpr_CallOf isDefaultCgoLibrary_def)
    have none: "filter (defaultCgoStmt keep) (pre @ post) = []"
      using pre post by simp
    show ?thesis
    proof (cases go)
      case None
      have "Stmt (squashCgoLibrary keep eld f) = pre @ CallOf (fixedGoLibraryOf eld c go) # post"
        using r Some p None upd by (simp add: squashCgoLibrary_def)
      then show ?thesis using R pre post by simp
    next
      case g: (Some g)
      have "Stmt (squashCgoLibrary keep eld f) = pre @ post \<or>
        (\<exists>j. Stmt (squashCgoLibrary keep eld f) =
           (pre @ post)[j := CallOf (fixedGoLibraryOf eld c go)])"
        using r Some p g rem by (auto simp: squashCgoLibrary_def Let_def)
      then show ?thesis using R none by (auto simp: filter_update_nil)
    qed
  qed
qed

text \<open>
  C4, as amended. When the file has at most one default cgo_library without a keep
  comment, the fixer applied twice gives what it gives applied once: no such statement
  is left after the first pass, so the second pass returns its input. (With two of
  them the first pass squashes only the first, and the second pass squashes the other.)
\<close>

theorem squashCgoLibrary_idempotent:
  assumes "length (filter (defaultCgoStmt keep) (Stmt f)) \<le> 1"
  shows "squashCgoLibrary keep eld (squashCgoLibrary keep eld f) = squashCgoLibrary keep eld f \<and>
         filter (defaultCgoStmt keep) (Stmt (squashCgoLibrary keep eld f)) = []"
  using squashCgoLibrary_removes[OF assms] by (simp add: squashCgoLibrary_noop)


lemma Attr_prepareGoLibrary:
  "Attr (prepareGoLibrary cgo r) key =
     (if key = ''cgo'' then Some (LiteralExpr noComments ''True'')
      else Attr (DelAttr r ''library'') key)"
  by (simp add: prepareGoLibrary_def Let_def Attr_cComments Attr_SetAttr)

lemma Attr_newGoLibrary:
  "Attr (DelAttr (newGoLibrary cgo) ''library'') key =
     (if key = ''name'' then Some (StringExpr noComments DefaultLibName)
      else if key = ''visibility'' then Attr cgo ''visibility'' else None)"
  by (cases "key = ''library''")
     (auto simp: newGoLibrary_def Let_def Attr_DelAttr Attr_SetAttr Attr_def DelAttr_def SetAttr_def
       split: option.splits)

lemma Stmt_squashCgoLibrary:
  assumes "findDefaultRules keep 0 (Stmt f) None None = (Some (ci, cgo), go)"
    and "\<not> (case go of None \<Rightarrow> False | Some g \<Rightarrow> keep (CallOf (snd g)))"
  shows "Stmt (squashCgoLibrary keep eld f) =
     (case go of
        None \<Rightarrow> (Stmt f)[ci := CallOf (fixedGoLibraryOf eld cgo go)]
      | Some g \<Rightarrow> (removeAt ci (Stmt f))[(if fst g > ci then fst g - 1 else fst g) :=
                     CallOf (fixedGoLibraryOf eld cgo go)])"
  using assms by (auto simp: squashCgoLibrary_def Let_def split: option.splits)

lemma distinct_squashedKeys: "distinct squashedKeys"
  by (simp add: squashedKeys_def)

lemma Attr_squashAttrs_key:
  "key \<in> set keys \<Longrightarrow> distinct keys \<Longrightarrow>
   Attr (squashAttrs eld cgo keys r) key =
     (case Attr cgo key of
        None \<Rightarrow> Attr r key
      | Some a \<Rightarrow>
          (case squashExpr eld (Attr r key) (Some a) of
             Inl err \<Rightarrow> Attr r key
           | Inr None \<Rightarrow> Attr r key
           | Inr (Some v) \<Rightarrow> Some v))"
proof (induction keys arbitrary: r)
  case Nil
  then show ?case by simp
next
  case (Cons k keys)
  show ?case
  proof (cases "key = k")
    case True
    then have "key \<notin> set keys" using Cons.prems by simp
    then show ?thesis using True
      by (auto simp: Attr_squashAttrs_other Attr_SetAttr split: option.splits sum.splits)
  next
    case False
    then have in_rest: "key \<in> set keys" and d: "distinct keys" using Cons.prems by auto
    have same: "Attr (SetAttr r k v) key = Attr r key" for v
      using False by (simp add: Attr_SetAttr)
    have step: "Attr (squashAttrs eld cgo keys (SetAttr r k v)) key =
       (case Attr cgo key of
          None \<Rightarrow> Attr r key
        | Some a \<Rightarrow>
            (case squashExpr eld (Attr r key) (Some a) of
               Inl err \<Rightarrow> Attr r key
             | Inr None \<Rightarrow> Attr r key
             | Inr (Some v) \<Rightarrow> Some v))" for v
      using Cons.IH[OF in_rest d, of "SetAttr r k v"] unfolding same .
    show ?thesis
      using Cons.IH[OF in_rest d, of r] step
      by (auto split: option.splits sum.splits)
  qed
qed

text \<open>
  C7. When the fixer squashes a cgo_library \<open>cgo\<close> (found at \<open>ci\<close>) into a
  go_library, the file it returns is the old file with the cgo_library statement
  removed and the rebuilt go_library in one slot, every other statement as it was; the
  fixer returns a file, never an error. For each of the seven keys the rebuilt rule
  has: the value of the target rule when cgo_library has no such attribute or
  \<^verbatim>\<open>squashExpr\<close> returns an error for this key, and the squashed value otherwise,
  whatever \<^verbatim>\<open>squashExpr\<close> returns for the other keys. The target rule is the
  go_library (or the new one) after the library attribute is deleted and cgo is set.
\<close>

theorem squashCgoLibrary_failure_is_local:
  assumes "findDefaultRules keep 0 (Stmt f) None None = (Some (ci, cgo), go)"
    and "\<not> (case go of None \<Rightarrow> False | Some g \<Rightarrow> keep (CallOf (snd g)))"
    and "key \<in> set squashedKeys"
  shows "Stmt (squashCgoLibrary keep eld f) =
     (case go of
        None \<Rightarrow> (Stmt f)[ci := CallOf (fixedGoLibraryOf eld cgo go)]
      | Some g \<Rightarrow> (removeAt ci (Stmt f))[(if fst g > ci then fst g - 1 else fst g) :=
                     CallOf (fixedGoLibraryOf eld cgo go)]) \<and>
   Attr (fixedGoLibraryOf eld cgo go) key =
     (let target = prepareGoLibrary cgo
            (case go of None \<Rightarrow> newGoLibrary cgo | Some g \<Rightarrow> snd g)
      in case Attr cgo key of
           None \<Rightarrow> Attr target key
         | Some a \<Rightarrow>
             (case squashExpr eld (Attr target key) (Some a) of
                Inl err \<Rightarrow> Attr target key
              | Inr None \<Rightarrow> Attr target key
              | Inr (Some v) \<Rightarrow> Some v))"
  using Stmt_squashCgoLibrary[OF assms(1,2)]
    Attr_squashAttrs_key[OF assms(3) distinct_squashedKeys]
  by (simp add: fixedGoLibraryOf_def Let_def)

text \<open>
  C10. For a key that is not one of the seven, the rebuilt go_library has the value
  the fixer itself sets (\<^verbatim>\<open>cgo = True\<close>; the default name and the visibility of
  cgo_library when the go_library is new) or the value the go_library had before
  (after one library attribute is deleted), and no value otherwise: nothing else of
  cgo_library is copied, and the cgo_library statement is not in the returned file.
\<close>

theorem squashCgoLibrary_transfers_only_squashed_keys:
  assumes "findDefaultRules keep 0 (Stmt f) None None = (Some (ci, cgo), go)"
    and "\<not> (case go of None \<Rightarrow> False | Some g \<Rightarrow> keep (CallOf (snd g)))"
    and "key \<notin> set squashedKeys"
  shows "Stmt (squashCgoLibrary keep eld f) =
     (case go of
        None \<Rightarrow> (Stmt f)[ci := CallOf (fixedGoLibraryOf eld cgo go)]
      | Some g \<Rightarrow> (removeAt ci (Stmt f))[(if fst g > ci then fst g - 1 else fst g) :=
                     CallOf (fixedGoLibraryOf eld cgo go)]) \<and>
   Attr (fixedGoLibraryOf eld cgo go) key =
     (if key = ''cgo'' then Some (LiteralExpr noComments ''True'')
      else case go of
             Some g \<Rightarrow> Attr (DelAttr (snd g) ''library'') key
           | None \<Rightarrow>
               if key = ''name'' then Some (StringExpr noComments DefaultLibName)
               else if key = ''visibility'' then Attr cgo ''visibility''
               else None)"
  using Stmt_squashCgoLibrary[OF assms(1,2)] assms(3)
  by (simp add: fixedGoLibraryOf_def Attr_squashAttrs_other Attr_prepareGoLibrary
      Attr_newGoLibrary split: option.splits)

lemmas shorthand = str_def attr_def call_def noKeep_def noComments_def CallOf_def

lemmas rule_view = Kind_def Name_def AttrString_def Attr_def SetAttr_def DelAttr_def
  isDefaultCgoLibrary_def isDefaultGoLibrary_def DefaultCgoLibName_def DefaultLibName_def

lemmas cgo_fixer = squashCgoLibrary_def fixedGoLibraryOf_def prepareGoLibrary_def
  newGoLibrary_def squashedKeys_def squashList_def removeAt_def ListOf_def DictOf_def Let_def

lemma exprListAndDict_Some:
  "exprListAndDict (Some y) = Inr (yl, yd) \<Longrightarrow> yl \<noteq> None \<or> yd \<noteq> None"
  by (cases y) (auto split: option.splits if_splits dest: sym)

lemma squashExpr_exprListAndDict_Some:
  "squashExpr exprListAndDict x (Some y) \<noteq> Inr None"
proof (cases "exprListAndDict x")
  case (Inl e)
  then show ?thesis by simp
next
  case x: (Inr xs)
  show ?thesis
  proof (cases "exprListAndDict (Some y)")
    case (Inl e)
    then show ?thesis using x by simp
  next
    case y: (Inr ys)
    obtain yl yd where ys: "ys = (yl, yd)" by (cases ys)
    from exprListAndDict_Some[of y yl yd] y ys have some: "yl \<noteq> None \<or> yd \<noteq> None" by simp
    obtain xl xd where xs: "xs = (xl, xd)" by (cases xs)
    have d: "yd \<noteq> None \<Longrightarrow> \<exists>d. squashDict exprListAndDict xd yd = Inr (Some d)"
      by (cases xd; cases yd) (simp_all add: squashEntries_appends)
    have d': "\<exists>d. squashDict exprListAndDict xd yd = Inr d"
      by (cases xd; cases yd) (simp_all add: squashEntries_appends)
    have l: "yl \<noteq> None \<Longrightarrow> squashList xl yl \<noteq> None"
      by (cases xl; cases yl) (simp_all add: squashList_def)
    show ?thesis using x y xs ys some d d' l
      by (auto split: option.splits sum.splits)
  qed
qed

text \<open>
  C4, counterexample. With two default cgo_library statements the first pass leaves
  the second one in the file, and the second pass changes the file again.
\<close>

theorem squashCgoLibrary_twice_differs:
  "squashCgoLibrary noKeep exprListAndDict (squashCgoLibrary noKeep exprListAndDict twoCgoFile)
     \<noteq> squashCgoLibrary noKeep exprListAndDict twoCgoFile"
  by (simp add: twoCgoFile_def cgoRule_def shorthand rule_view cgo_fixer)

theorem squashCgoLibrary_idempotent_witness:
  "length (filter (defaultCgoStmt noKeep) (Stmt oneCgoFile)) = 1 \<and>
   squashCgoLibrary noKeep exprListAndDict (squashCgoLibrary noKeep exprListAndDict oneCgoFile) =
     squashCgoLibrary noKeep exprListAndDict oneCgoFile \<and>
   filter (defaultCgoStmt noKeep) (Stmt (squashCgoLibrary noKeep exprListAndDict oneCgoFile)) = []"
proof -
  have h: "length (filter (defaultCgoStmt noKeep) (Stmt oneCgoFile)) = 1"
    by (simp add: oneCgoFile_def cgoRule_def defaultCgoStmt_def shorthand rule_view)
  then have "length (filter (defaultCgoStmt noKeep) (Stmt oneCgoFile)) \<le> 1" by simp
  from squashCgoLibrary_idempotent[OF this] h show ?thesis by simp
qed

lemma mixedFile_found:
  "findDefaultRules noKeep 0 (Stmt mixedFile) None None = (Some (1, badCgoRule), Some (0, goRule))"
  by (simp add: mixedFile_def asCallExpr_CallOf)
     (simp add: goRule_def badCgoRule_def shorthand rule_view)

theorem squashCgoLibrary_failure_is_local_witness:
  "squashExpr exprListAndDict (Some (ListExpr noComments [str ''//y''])) (Some (str ''x'')) =
     Inl UnrecognizedShape \<and>
   Stmt (squashCgoLibrary noKeep exprListAndDict mixedFile) =
     [CallOf (fixedGoLibraryOf exprListAndDict badCgoRule (Some (0, goRule)))] \<and>
   Attr (fixedGoLibraryOf exprListAndDict badCgoRule (Some (0, goRule))) ''deps'' =
     Some (ListExpr noComments [str ''//y'']) \<and>
   Attr (fixedGoLibraryOf exprListAndDict badCgoRule (Some (0, goRule))) ''srcs'' =
     Some (ListExpr noComments [str ''a.go''])"
proof -
  have keep: "\<not> (case Some (0::nat, goRule) of None \<Rightarrow> False | Some g \<Rightarrow> noKeep (CallOf (snd g)))"
    by (simp add: noKeep_def)
  have deps: "''deps'' \<in> set squashedKeys" and srcs: "''srcs'' \<in> set squashedKeys"
    by (simp_all add: squashedKeys_def)
  have fails: "squashExpr exprListAndDict (Some (ListExpr noComments [str ''//y''])) (Some (str ''x'')) =
     Inl UnrecognizedShape"
    by (simp add: str_def)
  have target: "Attr (prepareGoLibrary badCgoRule goRule) ''deps'' = Some (ListExpr noComments [str ''//y''])"
    "Attr (prepareGoLibrary badCgoRule goRule) ''srcs'' = None"
    "Attr badCgoRule ''deps'' = Some (str ''x'')"
    "Attr badCgoRule ''srcs'' = Some (ListExpr noComments [str ''a.go''])"
    by (simp_all add: goRule_def badCgoRule_def prepareGoLibrary_def Let_def attr_def
        Attr_def SetAttr_def DelAttr_def)
  have ok: "squashExpr exprListAndDict None (Some (ListExpr noComments [str ''a.go''])) =
     Inr (Some (ListExpr noComments [str ''a.go'']))"
    by (simp add: squashList_def ListOf_def)
  show ?thesis
    using squashCgoLibrary_failure_is_local[OF mixedFile_found keep deps, of exprListAndDict]
      squashCgoLibrary_failure_is_local[OF mixedFile_found keep srcs, of exprListAndDict]
      fails target ok
    by (simp add: mixedFile_def removeAt_def)
qed

theorem squashCgoLibrary_transfers_only_squashed_keys_witness:
  "Attr badCgoRule ''linkstamp'' = Some (str ''z'') \<and>
   Stmt (squashCgoLibrary noKeep exprListAndDict mixedFile) =
     [CallOf (fixedGoLibraryOf exprListAndDict badCgoRule (Some (0, goRule)))] \<and>
   Attr (fixedGoLibraryOf exprListAndDict badCgoRule (Some (0, goRule))) ''linkstamp'' = None"
proof -
  have keep: "\<not> (case Some (0::nat, goRule) of None \<Rightarrow> False | Some g \<Rightarrow> noKeep (CallOf (snd g)))"
    by (simp add: noKeep_def)
  have key: "''linkstamp'' \<notin> set squashedKeys"
    by (simp add: squashedKeys_def)
  have attrs: "Attr badCgoRule ''linkstamp'' = Some (str ''z'')"
    "Attr (DelAttr goRule ''library'') ''linkstamp'' = None"
    by (simp_all add: goRule_def badCgoRule_def attr_def Attr_def DelAttr_def)
  show ?thesis
    using squashCgoLibrary_transfers_only_squashed_keys[OF mixedFile_found keep key, of exprListAndDict]
      attrs
    by (simp add: mixedFile_def removeAt_def)
qed

section \<open>Properties of fixLoad\<close>

lemma splitArgs_eq:
  "splitArgs kinds args (sy, ot, ld, rm) =
     (sy @ filter (keepsSymbol kinds) args,
      ot @ filter (\<lambda>a. asStringExpr a = None) args,
      ld \<union> stringValue ` set (filter (keepsSymbol kinds) args),
      rm + length (filter (dropsSymbol kinds) args))"
proof (induction args arbitrary: sy ot ld rm)
  case Nil
  show ?case by simp
next
  case (Cons a args)
  show ?case
  proof (cases a)
    case (StringExpr c v)
    then show ?thesis using Cons
      by (auto simp: keepsSymbol_def dropsSymbol_def)
  qed (use Cons in \<open>simp_all add: keepsSymbol_def dropsSymbol_def\<close>)
qed

lemma addKinds_eq:
  "addKinds ks ld (sy, ad) =
     (sy @ map (StringExpr noComments) (filter (\<lambda>k. k \<notin> ld) ks),
      ad + length (filter (\<lambda>k. k \<notin> ld) ks))"
  by (induction ks arbitrary: sy ad) simp_all

lemma fixLoad_eq:
  "fixLoad load file kinds =
     (let fixed = (case load of None \<Rightarrow> newLoad file | Some l \<Rightarrow> l);
          args = drop 1 (cList fixed);
          new = missingKinds kinds args
      in if new = [] \<and> filter (dropsSymbol kinds) args = []
         then (case load of
                 None \<Rightarrow> SameLoad
               | Some l \<Rightarrow> if length (cList l) = 1 then NoLoad else SameLoad)
         else (let list = take 1 (cList fixed) @
                     sort_key stringValue
                       (filter (keepsSymbol kinds) args @ map (StringExpr noComments) new) @
                     filter (\<lambda>a. asStringExpr a = None) args
               in if length list = 1 then NoLoad else FixedLoad (fixed\<lparr>cList := list\<rparr>)))"
  by (cases kinds)
     (simp_all add: fixLoad_def splitArgs_eq addKinds_eq missingKinds_def Let_def)

lemma keepsSymbol_str: "keepsSymbol kinds (StringExpr c k) = (knownKinds k = None \<or> inKinds kinds k)"
  by (simp add: keepsSymbol_def)

lemma dropsSymbol_str:
  "dropsSymbol kinds (StringExpr c k) = (knownKinds k \<noteq> None \<and> \<not> inKinds kinds k)"
  by (simp add: dropsSymbol_def)

lemma keepsSymbol_string: "keepsSymbol kinds a \<Longrightarrow> asStringExpr a = Some (stringValue a)"
  by (cases a) (simp_all add: keepsSymbol_def)

lemma keeps_not_drops: "keepsSymbol kinds a \<Longrightarrow> \<not> dropsSymbol kinds a"
  by (auto simp: keepsSymbol_def dropsSymbol_def split: option.splits)

lemma other_not_keeps: "asStringExpr a = None \<Longrightarrow> \<not> keepsSymbol kinds a"
  by (simp add: keepsSymbol_def)

lemma other_not_drops: "asStringExpr a = None \<Longrightarrow> \<not> dropsSymbol kinds a"
  by (simp add: dropsSymbol_def)

lemma missingKinds_inKinds: "k \<in> set (missingKinds kinds args) \<Longrightarrow> inKinds kinds k"
  by (auto simp: missingKinds_def inKinds_def split: option.splits)

lemma filter_keeps_fixedArgs:
  "filter (keepsSymbol kinds) (fixedArgs kinds args) =
     sort_key stringValue
       (filter (keepsSymbol kinds) args @ map (StringExpr noComments) (missingKinds kinds args))"
proof -
  have a: "filter (keepsSymbol kinds) (map (StringExpr noComments) (missingKinds kinds args)) =
      map (StringExpr noComments) (missingKinds kinds args)"
    by (rule filter_True) (auto simp: keepsSymbol_str dest: missingKinds_inKinds)
  have b: "filter (\<lambda>x. asStringExpr x = None \<and> keepsSymbol kinds x) args = []"
    by (auto simp: filter_empty_conv other_not_keeps)
  show ?thesis
    by (simp add: fixedArgs_def filter_sort a b)
qed

lemma filter_drops_fixedArgs: "filter (dropsSymbol kinds) (fixedArgs kinds args) = []"
  by (auto simp: fixedArgs_def filter_empty_conv dropsSymbol_str other_not_drops
      dest: keeps_not_drops missingKinds_inKinds)

lemma missingKinds_fixedArgs: "missingKinds kinds (fixedArgs kinds args) = []"
proof (cases kinds)
  case None
  then show ?thesis by (simp add: missingKinds_def)
next
  case (Some ks)
  have "k \<in> stringValue ` set (filter (keepsSymbol kinds) (fixedArgs kinds args))"
    if "k \<in> set ks" for k
  proof (cases "k \<in> stringValue ` set (filter (keepsSymbol kinds) args)")
    case True
    then show ?thesis by (auto simp: filter_keeps_fixedArgs)
  next
    case False
    then have "k \<in> set (missingKinds kinds args)"
      using that Some by (simp add: missingKinds_def)
    then have "StringExpr noComments k \<in> set (filter (keepsSymbol kinds) (fixedArgs kinds args))"
      by (simp add: filter_keeps_fixedArgs)
    then show ?thesis by force
  qed
  then show ?thesis using Some by (simp add: missingKinds_def filter_empty_conv)
qed

lemma fixLoad_Fixed_cList:
  assumes "fixLoad load file kinds = FixedLoad c'"
  shows "\<exists>fixed. fixed = (case load of None \<Rightarrow> newLoad file | Some l \<Rightarrow> l) \<and>
           c' = fixed\<lparr>cList := take 1 (cList fixed) @ fixedArgs kinds (drop 1 (cList fixed))\<rparr> \<and>
           length (take 1 (cList fixed) @ fixedArgs kinds (drop 1 (cList fixed))) \<noteq> 1"
  using assms
  by (auto simp: fixLoad_eq Let_def fixedArgs_def split: if_splits option.splits)

lemma fixLoad_stable:
  assumes "fixLoad load file kinds = FixedLoad c'"
    and "\<And>l. load = Some l \<Longrightarrow> cList l \<noteq> []"
  shows "fixLoad (Some c') file kinds = SameLoad"
proof -
  define fixed where "fixed = (case load of None \<Rightarrow> newLoad file | Some l \<Rightarrow> l)"
  from fixLoad_Fixed_cList[OF assms(1)] have
    c': "c' = fixed\<lparr>cList := take 1 (cList fixed) @ fixedArgs kinds (drop 1 (cList fixed))\<rparr>"
    and len: "length (take 1 (cList fixed) @ fixedArgs kinds (drop 1 (cList fixed))) \<noteq> 1"
    by (auto simp: fixed_def)
  have ne: "cList fixed \<noteq> []"
    using assms(2) by (auto simp: fixed_def newLoad_def split: option.splits)
  then have "length (take 1 (cList fixed)) = 1" by (cases "cList fixed") auto
  then have args: "drop 1 (cList c') = fixedArgs kinds (drop 1 (cList fixed))"
    by (simp add: c')
  have len': "length (cList c') \<noteq> 1"
    using len by (simp add: c')
  show ?thesis
    using len'
    by (simp add: fixLoad_eq[of "Some c'"] Let_def args[unfolded One_nat_def]
        missingKinds_fixedArgs filter_drops_fixedArgs)
qed

lemma sort_key_Nil: "sort_key f xs = [] \<longleftrightarrow> xs = []"
  by (metis length_sort length_0_conv)

lemma fixLoad_NoLoad:
  assumes "fixLoad (Some l) file (Some ks) = NoLoad" and "cList l \<noteq> []"
  shows "ks = []"
proof (rule ccontr)
  assume "ks \<noteq> []"
  then obtain k where k: "k \<in> set ks" by (cases ks) auto
  let ?args = "drop 1 (cList l)"
  let ?kept = "filter (keepsSymbol (Some ks)) ?args"
  let ?new = "missingKinds (Some ks) ?args"
  have one: "length (take 1 (cList l)) = 1" using assms(2) by (cases "cList l") auto
  have "k \<in> stringValue ` set ?kept \<or> k \<in> set ?new"
    using k by (auto simp: missingKinds_def)
  then have some: "?kept \<noteq> [] \<or> ?new \<noteq> []"
    by (metis empty_iff image_is_empty set_empty)
  then have big: "fixedArgs (Some ks) ?args \<noteq> []"
    by (auto simp: fixedArgs_def sort_key_Nil)
  have "?args \<noteq> []" if "?new = []"
    using some that by (metis filter.simps(1))
  then have len: "length (cList l) \<noteq> 1" if "?new = []"
    using that by (cases "cList l") auto
  have len2: "length (take 1 (cList l) @ fixedArgs (Some ks) ?args) \<noteq> 1"
    using big one by (cases "fixedArgs (Some ks) ?args") auto
  show False
    using assms(1) len len2
    by (auto simp: fixLoad_eq Let_def fixedArgs_def split: if_splits)
qed

text \<open>The registry symbols of a load that \<^verbatim>\<open>fixLoad\<close> leaves as it is are the kinds.\<close>

lemma fixLoad_Same_symbols:
  assumes "fixLoad (Some c) file kinds = SameLoad"
  shows "{v. \<exists>a \<in> set (drop 1 (cList c)). asStringExpr a = Some v \<and> knownKinds v \<noteq> None} =
         {k. inKinds kinds k \<and> knownKinds k \<noteq> None}"
proof -
  let ?args = "drop 1 (cList c)"
  from assms have m: "missingKinds kinds ?args = []" and d: "filter (dropsSymbol kinds) ?args = []"
    by (auto simp: fixLoad_eq Let_def split: if_splits)
  have sub: "inKinds kinds v" if "a \<in> set ?args" "asStringExpr a = Some v" "knownKinds v \<noteq> None" for a v
    using d that by (auto simp: filter_empty_conv dropsSymbol_def)
  have sup: "\<exists>a \<in> set ?args. asStringExpr a = Some k" if "inKinds kinds k" for k
  proof -
    from that obtain ks where ks: "kinds = Some ks" "k \<in> set ks"
      by (auto simp: inKinds_def split: option.splits)
    with m have "k \<in> stringValue ` set (filter (keepsSymbol kinds) ?args)"
      by (auto simp: missingKinds_def filter_empty_conv)
    then obtain a where "a \<in> set ?args" "keepsSymbol kinds a" "k = stringValue a" by auto
    then show ?thesis
      using keepsSymbol_string[of kinds a] by blast
  qed
  show ?thesis using sub sup by blast
qed

section \<open>The loops of FixLoads, statement by statement\<close>

lemma scanLoads_eq:
  "scanLoads i ss (loads, other) = (loads @ managedLoads i ss, fold otherLoads ss other)"
proof (induction ss arbitrary: i loads other)
  case Nil
  show ?case by simp
next
  case (Cons s ss)
  show ?case
    by (simp add: Cons managedLoad_def otherLoads_def split: option.splits list.splits)
qed

lemma managedLoads_index: "li \<in> set (managedLoads i ss) \<Longrightarrow> i \<le> li_index li"
proof (induction ss arbitrary: i)
  case Nil
  then show ?case by simp
next
  case (Cons s ss)
  then show ?case
    by (fastforce split: option.splits)
qed

lemma managedLoad_known: "managedLoad s = Some m \<Longrightarrow> knownFiles (fst m)"
  by (auto simp: managedLoad_def split: option.splits if_splits list.splits)

lemma managedLoads_known: "li \<in> set (managedLoads i ss) \<Longrightarrow> knownFiles (li_file li)"
proof (induction ss arbitrary: i)
  case Nil
  then show ?case by simp
next
  case (Cons s ss)
  then show ?case
    by (auto split: option.splits dest: managedLoad_known)
qed

lemma afterLoad_same: "afterLoad K F F = None"
  by (simp add: afterLoad_def)

lemma afterLoad_other: "G \<noteq> F \<Longrightarrow> afterLoad K F G = K G"
  by (simp add: afterLoad_def)

lemma fixSome_empty: "fixSome K {} loads = loads"
  by (induction loads arbitrary: K) simp_all

lemma fixSome_index: "map li_index (fixSome K D loads) = map li_index loads"
  by (induction loads arbitrary: K) simp_all

lemma fixSome_file: "map li_file (fixSome K D loads) = map li_file loads"
  by (induction loads arbitrary: K) simp_all

lemma fixSome_file_set: "li \<in> set (fixSome K D loads) \<Longrightarrow> li_file li \<in> li_file ` set loads"
  by (metis fixSome_file image_eqI set_map)

lemma fixSome_D:
  "li_file ` set loads \<subseteq> D \<Longrightarrow> fixSome K D loads = fixSome K UNIV loads"
  by (induction loads arbitrary: K) simp_all

lemma changedFor_Nil: "changedFor K S [] = False"
  by (simp add: changedFor_def)

lemma changedFor_Cons:
  "changedFor K S (li # loads) =
     ((li_file li \<in> S \<and> fixLoad (Some (li_old li)) (li_file li) (K (li_file li)) \<noteq> SameLoad) \<or>
      changedFor (afterLoad K (li_file li)) S loads)"
  by (auto simp: changedFor_def)

lemma changedFor_insert:
  "changedFor K (insert F S) loads = (changedFor K {F} loads \<or> changedFor K S loads)"
  by (auto simp: changedFor_def)

lemma changedFor_empty: "changedFor K {} loads = False"
  by (simp add: changedFor_def)

lemma fixLoadsOf_fixSome:
  assumes "F \<notin> D" and "K F = (if first then kinds else None)"
  shows "fixLoadsOf F kinds (fixSome K D loads) first ch =
     (fixSome K (insert F D) loads, first \<and> F \<notin> li_file ` set loads,
      ch \<or> changedFor K {F} loads)"
  using assms(2)
proof (induction loads arbitrary: K first ch)
  case Nil
  show ?case by (simp add: changedFor_Nil)
next
  case (Cons li loads)
  show ?case
  proof (cases "li_file li = F")
    case True
    have ih: "fixLoadsOf F kinds (fixSome (afterLoad K F) D loads) False c =
       (fixSome (afterLoad K F) (insert F D) loads, False \<and> F \<notin> li_file ` set loads,
        c \<or> changedFor (afterLoad K F) {F} loads)" for c
      by (rule Cons.IH) (simp add: afterLoad_same)
    show ?thesis
      using True assms(1) Cons.prems
      by (simp add: changedFor_Cons Let_def ih)
  next
    case False
    have ih: "fixLoadsOf F kinds (fixSome (afterLoad K (li_file li)) D loads) first c =
       (fixSome (afterLoad K (li_file li)) (insert F D) loads, first \<and> F \<notin> li_file ` set loads,
        c \<or> changedFor (afterLoad K (li_file li)) {F} loads)" for c
      by (rule Cons.IH) (use False Cons.prems in \<open>simp add: afterLoad_other\<close>)
    show ?thesis
      using False
      by (simp add: changedFor_Cons ih)
  qed
qed

lemma fixKnownLoads_eq:
  assumes "distinct (map fst kl)" and "set (map fst kl) \<inter> D = {}"
  shows "fixKnownLoads U kl (fixSome U D loads, ch, new) =
     (fixSome U (D \<union> set (map fst kl)) loads,
      ch \<or> changedFor U (set (map fst kl)) loads \<or>
        newLoads U (li_file ` set loads) (map fst kl) \<noteq> [],
      new @ newLoads U (li_file ` set loads) (map fst kl))"
  using assms
proof (induction kl arbitrary: D ch new)
  case Nil
  show ?case by (simp add: changedFor_empty)
next
  case (Cons l kl)
  define F where "F = fst l"
  have F: "F \<notin> D" and d: "distinct (map fst kl)" and i: "set (map fst kl) \<inter> insert F D = {}"
    using Cons.prems by (auto simp: F_def)
  have K: "U F = (if True then U F else None)" by simp
  note step = fixLoadsOf_fixSome[where K=U and first=True and kinds="U F", OF F K, of loads ch]
  have un: "D \<union> set (map fst (l # kl)) = insert F D \<union> set (map fst kl)"
    by (auto simp: F_def)
  have m: "map fst (l # kl) = F # map fst kl" by (simp add: F_def)
  have ih: "fixKnownLoads U kl (fixSome U (insert F D) loads, c, n) =
     (fixSome U (insert F D \<union> set (map fst kl)) loads,
      c \<or> changedFor U (set (map fst kl)) loads \<or>
        newLoads U (li_file ` set loads) (map fst kl) \<noteq> [],
      n @ newLoads U (li_file ` set loads) (map fst kl))" for c n
    by (rule Cons.IH[OF d i])
  have ci: "changedFor U (insert F (set (map fst kl))) loads =
      (changedFor U {F} loads \<or> changedFor U (set (map fst kl)) loads)"
    by (rule changedFor_insert)
  have l: "fst l = F" by (simp add: F_def)
  show ?case
    unfolding un m
    by (cases "fixLoad None F (U F)")
       (simp_all only: fixKnownLoads.simps l step ih ci list.set newLoads.simps
          prod.case if_True if_False loadResult.case append_Nil append_Cons append_assoc
          simp_thms; auto)+
qed

lemma emitLoad_eq: "emitLoad li = emitResult (li_old li) (li_fixed li)"
  by (cases "li_fixed li") simp_all

lemma rebuild_fixSome:
  "rebuild i ss (fixSome K UNIV (managedLoads i ss)) = fixStmts K ss"
proof (induction ss arbitrary: i K)
  case Nil
  show ?case by simp
next
  case (Cons s ss)
  show ?case
  proof (cases "managedLoad s")
    case None
    show ?thesis
    proof (cases "fixSome K UNIV (managedLoads (Suc i) ss)")
      case Nil
      then show ?thesis using None Cons.IH[of "Suc i" K] by simp
    next
      case (Cons li rest)
      then have "li_index li \<in> set (map li_index (managedLoads (Suc i) ss))"
        by (metis fixSome_index list.set_intros(1) list.simps(9))
      then have "Suc i \<le> li_index li"
        by (auto dest: managedLoads_index)
      then show ?thesis
        using None Cons Cons.IH[of "Suc i" K] by simp
    qed
  next
    case (Some m)
    then show ?thesis
      by (simp del: emitLoad.simps add: emitLoad_eq Cons.IH)
  qed
qed

lemma fixStmts_unchanged:
  "\<not> changedFor K UNIV (managedLoads i ss) \<Longrightarrow> fixStmts K ss = ss"
proof (induction ss arbitrary: i K)
  case Nil
  show ?case by simp
next
  case (Cons s ss)
  show ?case
  proof (cases "managedLoad s")
    case None
    then show ?thesis using Cons by simp
  next
    case (Some m)
    then have "asCallExpr s = Some (snd m)"
      by (auto simp: managedLoad_def split: option.splits if_splits list.splits)
    then have s: "s = CallOf (snd m)" by (rule asCallExpr_Some)
    from Cons.prems Some have
      a: "fixLoad (Some (snd m)) (fst m) (K (fst m)) = SameLoad" and
      b: "\<not> changedFor (afterLoad K (fst m)) UNIV (managedLoads (Suc i) ss)"
      by (simp_all add: changedFor_Cons)
    show ?thesis
      using Some a s by (simp add: Cons.IH[OF b])
  qed
qed

lemma distinct_knownLoads: "distinct (map fst knownLoads)"
  by (simp add: knownLoads_def)

lemma managedLoads_shift:
  "map li_file (managedLoads i ss) = map li_file (managedLoads j ss)"
  by (induction ss arbitrary: i j) (auto split: option.splits)

lemma managedLoads_files: "li_file ` set (managedLoads i ss) = managedFiles ss"
proof -
  have "set (map li_file (managedLoads i ss)) = set (map li_file (managedLoads 0 ss))"
    by (simp only: managedLoads_shift[of i ss 0])
  then show ?thesis
    by (simp add: managedFiles_def)
qed

lemma FixLoads_eq:
  "FixLoads f =
     f\<lparr>Stmt := map CallOf (newLoads (usedKindsOf (Stmt f)) (managedFiles (Stmt f))
                  (map fst knownLoads)) @
               fixStmts (usedKindsOf (Stmt f)) (Stmt f)\<rparr>"
proof -
  define ss where "ss = Stmt f"
  define U where "U = usedKindsOf ss"
  define loads where "loads = managedLoads 0 ss"
  define files where "files = map fst knownLoads"
  have scan: "scanLoads 0 ss ([], {}) = (loads, otherLoadedKindsOf ss)"
    by (simp add: scanLoads_eq loads_def otherLoadedKindsOf_def)
  have known: "li_file ` set loads \<subseteq> set files"
    using managedLoads_known[of _ 0 ss] by (auto simp: loads_def files_def knownFiles_def)
  have "fixKnownLoads U knownLoads (fixSome U {} loads, False, []) =
     (fixSome U ({} \<union> set files) loads,
      False \<or> changedFor U (set files) loads \<or> newLoads U (li_file ` set loads) files \<noteq> [],
      [] @ newLoads U (li_file ` set loads) files)"
    unfolding files_def by (rule fixKnownLoads_eq) (simp_all add: distinct_knownLoads)
  then have fixk: "fixKnownLoads U knownLoads (loads, False, []) =
     (fixSome U UNIV loads,
      changedFor U (set files) loads \<or> newLoads U (managedFiles ss) files \<noteq> [],
      newLoads U (managedFiles ss) files)"
    using fixSome_D[OF known, of U]
    by (simp add: fixSome_empty loads_def managedLoads_files)
  have ch: "changedFor U (set files) loads = changedFor U UNIV loads"
  proof -
    have "li_file li \<in> set files" if "li \<in> set (fixSome U UNIV loads)" for li
      using known fixSome_file_set[OF that] by blast
    then show ?thesis by (auto simp: changedFor_def)
  qed
  show ?thesis
  proof (cases "changedFor U UNIV loads \<or> newLoads U (managedFiles ss) files \<noteq> []")
    case True
    then show ?thesis
      using scan fixk ch
      by (simp add: FixLoads_def ss_def[symmetric] U_def[symmetric] usedKindsOf_def[symmetric]
          files_def[symmetric] rebuild_fixSome loads_def)
  next
    case False
    then have "fixStmts U ss = ss"
      using fixStmts_unchanged[of U 0 ss] by (simp add: loads_def)
    then show ?thesis
      using False scan fixk ch
      by (simp add: FixLoads_def ss_def[symmetric] U_def[symmetric] usedKindsOf_def[symmetric]
          files_def[symmetric])
  qed
qed

section \<open>Used kinds and loaded kinds\<close>

lemma otherLoadedKindsOf_fold: "otherLoadedKindsOf ss = fold otherLoads ss {}"
  by (simp add: otherLoadedKindsOf_def scanLoads_eq)

text \<open>
  The first loop collects the externally loaded symbols of the specification.
\<close>

lemma otherLoaded_importedName:
  "otherLoaded a other = (case importedName a of None \<Rightarrow> other | Some v \<Rightarrow> insert v other)"
  by (cases a rule: importedName.cases) simp_all

lemma fold_otherLoaded:
  "fold otherLoaded args other = other \<union> set (List.map_filter importedName args)"
proof (induction args arbitrary: other)
  case Nil
  show ?case by simp
next
  case (Cons a args)
  show ?case
    using Cons[of "otherLoaded a other"]
    by (cases "importedName a") (simp_all add: otherLoaded_importedName[of a])
qed

lemma otherLoads_externalLoadArgs:
  "otherLoads s other = other \<union> set (List.map_filter importedName (externalLoadArgs s))"
  by (cases s rule: externalLoadArgs.cases)
     (simp_all add: otherLoads_def fold_otherLoaded)

lemma map_filter_append:
  "List.map_filter f (xs @ ys) = List.map_filter f xs @ List.map_filter f ys"
  by (simp add: List.map_filter_def)

lemma fold_otherLoads:
  "fold otherLoads ss other = other \<union> externallyLoaded ss"
proof (induction ss arbitrary: other)
  case Nil
  show ?case by (simp add: externallyLoaded_def)
next
  case (Cons s ss)
  show ?case
    using Cons[of "otherLoads s other"]
    by (auto simp: otherLoads_externalLoadArgs externallyLoaded_def map_filter_append)
qed

lemma otherLoadedKindsOf_externallyLoaded: "otherLoadedKindsOf ss = externallyLoaded ss"
  by (simp add: otherLoadedKindsOf_fold fold_otherLoads)

lemma useKinds_Cons: "useKinds other (s # ss) m = useKinds other ss (useKind other s m)"
  by (simp add: useKind_def calleeKind_def split: option.splits)

lemma useKinds_fold: "useKinds other ss m = fold (useKind other) ss m"
proof (induction ss arbitrary: m)
  case Nil
  show ?case by simp
next
  case (Cons s ss)
  show ?case
    by (simp only: useKinds_Cons Cons fold_simps)
qed

lemma inKinds_useKind:
  "inKinds (useKind other s m F) k \<longleftrightarrow>
     inKinds (m F) k \<or> (calleeKind s = Some k \<and> knownKinds k = Some F \<and> k \<notin> other)"
  by (auto simp: useKind_def inKinds_def split: option.splits)

lemma inKinds_fold_useKind:
  "inKinds (fold (useKind other) ss m F) k \<longleftrightarrow>
     inKinds (m F) k \<or> (k \<in> calleeKinds ss \<and> knownKinds k = Some F \<and> k \<notin> other)"
proof (induction ss arbitrary: m)
  case Nil
  show ?case by (simp add: calleeKinds_def)
next
  case (Cons s ss)
  show ?case
    by (auto simp: Cons inKinds_useKind calleeKinds_def)
qed

lemma inKinds_usedKindsOf:
  "inKinds (usedKindsOf ss F) k \<longleftrightarrow>
     k \<in> calleeKinds ss \<and> knownKinds k = Some F \<and> k \<notin> otherLoadedKindsOf ss"
proof -
  have "inKinds (Map.empty F) k = False" by (simp add: inKinds_def)
  then show ?thesis
    by (simp only: usedKindsOf_def useKinds_fold inKinds_fold_useKind simp_thms)
qed

lemma useKind_nonempty:
  "(\<And>F. m F \<noteq> Some []) \<Longrightarrow> useKind other s m F \<noteq> Some []"
  by (auto simp: useKind_def split: option.splits if_splits)

lemma fold_useKind_nonempty:
  "(\<And>F. m F \<noteq> Some []) \<Longrightarrow> fold (useKind other) ss m F \<noteq> Some []"
proof (induction ss arbitrary: m F)
  case Nil
  then show ?case by simp
next
  case (Cons s ss)
  show ?case
    using Cons.IH[of "useKind other s m" F] useKind_nonempty[of m other s] Cons.prems
    by simp
qed

lemma usedKindsOf_nonempty: "usedKindsOf ss F \<noteq> Some []"
  by (simp add: usedKindsOf_def useKinds_fold fold_useKind_nonempty)

lemma knownKinds_load: "knownKinds ''load'' = None"
  by (simp add: knownKinds_def knownLoads_def)

lemma managedLoad_cases:
  assumes "managedLoad s = Some m"
  obtains a args where "s = CallOf (snd m)" "asLiteralExpr (cX (snd m)) = Some ''load''"
    "cList (snd m) = a # args" "asStringExpr a = Some (fst m)" "knownFiles (fst m)"
proof -
  from assms obtain c where c: "asCallExpr s = Some c"
    by (auto simp: managedLoad_def split: option.splits)
  with assms have "asLiteralExpr (cX c) = Some ''load''" "snd m = c"
    "\<exists>a args. cList c = a # args \<and> asStringExpr a = Some (fst m) \<and> knownFiles (fst m)"
    by (auto simp: managedLoad_def split: option.splits if_splits list.splits)
  then show ?thesis
    using that asCallExpr_Some[OF c] by auto
qed

lemma managedLoad_CallOf:
  assumes "asLiteralExpr (cX c) = Some ''load''" "cList c = a # args"
    "asStringExpr a = Some F" "knownFiles F"
  shows "managedLoad (CallOf c) = Some (F, c)"
  using assms by (simp add: managedLoad_def asCallExpr_CallOf)

lemma managed_otherLoads: "managedLoad s = Some m \<Longrightarrow> otherLoads s X = X"
  by (erule managedLoad_cases) (simp add: otherLoads_def asCallExpr_CallOf)

lemma managed_calleeKind: "managedLoad s = Some m \<Longrightarrow> calleeKind s = Some ''load''"
  by (erule managedLoad_cases) (simp add: calleeKind_def asCallExpr_CallOf)

lemma managed_useKind: "managedLoad s = Some m \<Longrightarrow> useKind other s U = U"
  by (simp add: useKind_def managed_calleeKind knownKinds_load)

text \<open>What \<^verbatim>\<open>fixLoad\<close> returns for a load of a known file is a load of that file.\<close>

lemma fixLoad_managed:
  assumes "managedLoad s = Some (F, c)" and "fixLoad (Some c) F K = FixedLoad c'"
  shows "managedLoad (CallOf c') = Some (F, c')"
proof -
  from assms(1) obtain a args where c: "asLiteralExpr (cX c) = Some ''load''"
    "cList c = a # args" "asStringExpr a = Some F" "knownFiles F"
    by (auto elim: managedLoad_cases)
  from fixLoad_Fixed_cList[OF assms(2)] have
    "c' = c\<lparr>cList := take 1 (cList c) @ fixedArgs K (drop 1 (cList c))\<rparr>" by simp
  then have "cX c' = cX c" "cList c' = a # fixedArgs K args"
    using c by simp_all
  then show ?thesis
    using c by (simp add: managedLoad_CallOf)
qed

lemma newLoad_managed:
  assumes "fixLoad None F K = FixedLoad c" and "knownFiles F"
  shows "managedLoad (CallOf c) = Some (F, c)"
proof -
  from fixLoad_Fixed_cList[OF assms(1)] have
    "c = (newLoad F)\<lparr>cList := take 1 (cList (newLoad F)) @ fixedArgs K (drop 1 (cList (newLoad F)))\<rparr>"
    by simp
  then have "cX c = LiteralExpr noComments ''load''"
    "cList c = StringExpr noComments F # fixedArgs K []"
    by (simp_all add: newLoad_def)
  then show ?thesis
    using assms(2) by (simp add: managedLoad_CallOf)
qed

lemma managedLoad_nonempty: "managedLoad s = Some (F, c) \<Longrightarrow> cList c \<noteq> []"
  by (auto elim: managedLoad_cases)

lemma emitResult_managed:
  assumes "managedLoad s = Some (F, c)" and "e \<in> set (emitResult c (fixLoad (Some c) F K))"
  shows "\<exists>c'. managedLoad e = Some (F, c')"
proof (cases "fixLoad (Some c) F K")
  case SameLoad
  then have "e = CallOf c" using assms(2) by simp
  moreover have "s = CallOf c" using assms(1) by (auto elim: managedLoad_cases)
  ultimately show ?thesis using assms(1) by auto
next
  case NoLoad
  then show ?thesis using assms(2) by simp
next
  case (FixedLoad c')
  then have "e = CallOf c'" using assms(2) by simp
  then show ?thesis using fixLoad_managed[OF assms(1) FixedLoad] by auto
qed

lemma fold_fixStmts:
  assumes "\<And>s m X. managedLoad s = Some m \<Longrightarrow> g s X = X"
  shows "fold g (fixStmts K ss) X = fold g ss X"
proof (induction ss arbitrary: K X)
  case Nil
  show ?case by simp
next
  case (Cons s ss)
  show ?case
  proof (cases "managedLoad s")
    case None
    then show ?thesis by (simp add: Cons)
  next
    case (Some m)
    have "fold g (emitResult (snd m) (fixLoad (Some (snd m)) (fst m) (K (fst m)))) X = X"
    proof (cases "emitResult (snd m) (fixLoad (Some (snd m)) (fst m) (K (fst m)))")
      case Nil
      then show ?thesis by simp
    next
      case (Cons e es)
      then have es: "es = []" by (cases "fixLoad (Some (snd m)) (fst m) (K (fst m))") auto
      have "e \<in> set (emitResult (snd m) (fixLoad (Some (snd m)) (fst m) (K (fst m))))"
        using Cons by simp
      from emitResult_managed[OF _ this] Some obtain c' where "managedLoad e = Some (fst m, c')"
        by (cases m) auto
      then show ?thesis using Cons es assms by simp
    qed
    then show ?thesis
      using Some assms[OF Some] by (simp add: Cons)
  qed
qed

section \<open>The fixed file is a fixed point\<close>

lemma managedLoads_append:
  "managedLoads i (xs @ ys) = managedLoads i xs @ managedLoads (i + length xs) ys"
  by (induction xs arbitrary: i) (auto split: option.splits)

lemma managedFiles_Nil: "managedFiles [] = {}"
  by (simp add: managedFiles_def)

lemma managedFiles_Cons:
  "managedFiles (s # ss) =
     (case managedLoad s of None \<Rightarrow> {} | Some m \<Rightarrow> {fst m}) \<union> managedFiles ss"
proof -
  have "li_file ` set (managedLoads 0 (s # ss)) =
      (case managedLoad s of None \<Rightarrow> {} | Some m \<Rightarrow> {fst m}) \<union> li_file ` set (managedLoads 1 ss)"
    by (simp split: option.splits)
  then show ?thesis
    by (simp only: managedLoads_files)
qed

lemma managedFiles_append: "managedFiles (xs @ ys) = managedFiles xs \<union> managedFiles ys"
  by (induction xs) (auto simp: managedFiles_Nil managedFiles_Cons split: option.splits)

lemma managedFiles_iff:
  "F \<in> managedFiles ss \<longleftrightarrow> (\<exists>s \<in> set ss. \<exists>c. managedLoad s = Some (F, c))"
  by (induction ss) (auto simp: managedFiles_Nil managedFiles_Cons split: option.splits)

lemma fixSome_cong:
  "(\<And>F. F \<in> li_file ` set loads \<Longrightarrow> K F = K' F) \<Longrightarrow> fixSome K D loads = fixSome K' D loads"
proof (induction loads arbitrary: K K')
  case Nil
  show ?case by simp
next
  case (Cons li loads)
  have "fixSome (afterLoad K (li_file li)) D loads = fixSome (afterLoad K' (li_file li)) D loads"
    by (rule Cons.IH) (use Cons.prems in \<open>auto simp: afterLoad_def\<close>)
  then show ?case using Cons.prems by simp
qed

lemma changedFor_cong:
  "(\<And>F. F \<in> li_file ` set loads \<Longrightarrow> K F = K' F) \<Longrightarrow>
   changedFor K S loads = changedFor K' S loads"
  by (simp add: changedFor_def fixSome_cong[of loads K K'])

lemma afterLoad_None: "K F = None \<Longrightarrow> afterLoad K F = K"
  by (auto simp: afterLoad_def)

lemma fixLoad_NoLoad_None:
  assumes "fixLoad (Some c) F (K F) = NoLoad" and "cList c \<noteq> []" and "K F \<noteq> Some []"
  shows "K F = None"
proof (cases "K F")
  case None
  then show ?thesis .
next
  case (Some ks)
  then have "ks = []" using fixLoad_NoLoad[of c F ks] assms(1,2) by simp
  then show ?thesis using Some assms(3) by simp
qed

lemma stable_fixStmts:
  "(\<And>F. K F \<noteq> Some []) \<Longrightarrow> \<not> changedFor K UNIV (managedLoads i (fixStmts K ss))"
proof (induction ss arbitrary: i K)
  case Nil
  show ?case by (simp add: changedFor_Nil)
next
  case (Cons s ss)
  show ?case
  proof (cases "managedLoad s")
    case None
    then show ?thesis using Cons.IH[of K "Suc i"] Cons.prems by simp
  next
    case (Some m)
    obtain F c where m: "m = (F, c)" by (cases m)
    have ms: "managedLoad s = Some (F, c)" using Some m by simp
    have ne: "cList c \<noteq> []" using ms by (rule managedLoad_nonempty)
    have K1: "afterLoad K F G \<noteq> Some []" for G
      using Cons.prems by (simp add: afterLoad_def)
    note ih = Cons.IH[of "afterLoad K F", OF K1]
    show ?thesis
    proof (cases "fixLoad (Some c) F (K F)")
      case NoLoad
      then have "K F = None" using ne Cons.prems by (rule fixLoad_NoLoad_None)
      then have "afterLoad K F = K" by (rule afterLoad_None)
      then show ?thesis using ms NoLoad ih[of i] by simp
    next
      case SameLoad
      have "s = CallOf c" using ms by (auto elim: managedLoad_cases)
      then have "managedLoad (CallOf c) = Some (F, c)" using ms by simp
      then show ?thesis using ms SameLoad ih[of "Suc i"]
        by (simp add: changedFor_Cons)
    next
      case (FixedLoad c')
      have a: "managedLoad (CallOf c') = Some (F, c')" using ms FixedLoad by (rule fixLoad_managed)
      have b: "fixLoad (Some c') F (K F) = SameLoad"
        using FixedLoad ne by (auto intro: fixLoad_stable)
      show ?thesis using ms FixedLoad a b ih[of "Suc i"]
        by (simp add: changedFor_Cons)
    qed
  qed
qed

lemma managedFiles_fixStmts: "managedFiles (fixStmts K ss) \<subseteq> managedFiles ss"
proof (induction ss arbitrary: K)
  case Nil
  show ?case by simp
next
  case (Cons s ss)
  show ?case
  proof (cases "managedLoad s")
    case None
    then show ?thesis using Cons[of K] by (auto simp: managedFiles_Cons)
  next
    case (Some m)
    obtain F c where m: "m = (F, c)" by (cases m)
    have ms: "managedLoad s = Some (F, c)" using Some m by simp
    have "managedFiles (emitResult c (fixLoad (Some c) F (K F))) \<subseteq> {F}"
      using emitResult_managed[OF ms, of _ "K F"] by (fastforce simp: managedFiles_iff)
    then show ?thesis
      using ms Cons[of "afterLoad K F"] by (auto simp: managedFiles_Cons managedFiles_append)
  qed
qed

lemma deleted_first:
  "F \<in> managedFiles ss \<Longrightarrow> F \<notin> managedFiles (fixStmts K ss) \<Longrightarrow> (\<And>G. K G \<noteq> Some []) \<Longrightarrow>
   K F = None"
proof (induction ss arbitrary: K)
  case Nil
  then show ?case by (simp add: managedFiles_Nil)
next
  case (Cons s ss)
  show ?case
  proof (cases "managedLoad s")
    case None
    then show ?thesis using Cons.IH[of K] Cons.prems by (simp add: managedFiles_Cons)
  next
    case (Some m)
    obtain G c where m: "m = (G, c)" by (cases m)
    have ms: "managedLoad s = Some (G, c)" using Some m by simp
    have ne: "cList c \<noteq> []" using ms by (rule managedLoad_nonempty)
    have K1: "afterLoad K G H \<noteq> Some []" for H
      using Cons.prems(3) by (simp add: afterLoad_def)
    have out: "F \<notin> managedFiles (emitResult c (fixLoad (Some c) G (K G)))"
      "F \<notin> managedFiles (fixStmts (afterLoad K G) ss)"
      using Cons.prems(2) ms by (simp_all add: managedFiles_append)
    show ?thesis
    proof (cases "G = F")
      case True
      have "fixLoad (Some c) F (K F) = NoLoad"
      proof (cases "fixLoad (Some c) F (K F)")
        case SameLoad
        have "s = CallOf c" using ms by (auto elim: managedLoad_cases)
        then show ?thesis using out(1) SameLoad ms True
          by (simp add: managedFiles_Cons)
      next
        case NoLoad
        then show ?thesis .
      next
        case (FixedLoad c')
        have "managedLoad (CallOf c') = Some (F, c')"
          using ms FixedLoad True fixLoad_managed by blast
        then show ?thesis using out(1) FixedLoad True
          by (simp add: managedFiles_Cons)
      qed
      then show ?thesis using ne Cons.prems(3) True by (auto intro: fixLoad_NoLoad_None)
    next
      case False
      then have "F \<in> managedFiles ss" using Cons.prems(1) ms by (simp add: managedFiles_Cons)
      from Cons.IH[OF this out(2) K1] show ?thesis
        using False by (simp add: afterLoad_def)
    qed
  qed
qed

lemma fixLoad_None_Same: "fixLoad None F None = SameLoad"
  by (simp add: fixLoad_eq missingKinds_def newLoad_def)

lemma fixLoad_None_Fixed: "ks \<noteq> [] \<Longrightarrow> \<exists>c. fixLoad None F (Some ks) = FixedLoad c"
  by (auto simp: fixLoad_eq missingKinds_def newLoad_def Let_def sort_key_Nil)

lemma newLoads_mem:
  "c \<in> set (newLoads U M files) \<longleftrightarrow>
     (\<exists>F \<in> set files. F \<notin> M \<and> fixLoad None F (U F) = FixedLoad c)"
  by (induction files) (auto split: loadResult.splits)

lemma newLoads_Nil_iff:
  "newLoads U M files = [] \<longleftrightarrow>
     (\<forall>F \<in> set files. F \<in> M \<or> (\<forall>c. fixLoad None F (U F) \<noteq> FixedLoad c))"
  by (induction files) (auto split: loadResult.splits)

lemma new_stable:
  assumes "distinct files" and "\<And>F. F \<in> set files \<Longrightarrow> knownFiles F \<and> K F = U F"
    and "managedFiles R \<subseteq> M" and "\<And>j. \<not> changedFor K UNIV (managedLoads j R)"
  shows "\<not> changedFor K UNIV (managedLoads i (map CallOf (newLoads U M files) @ R))"
  using assms(1,2,4)
proof (induction files arbitrary: K i)
  case Nil
  then show ?case by simp
next
  case (Cons F files)
  have d: "distinct files" and F: "F \<notin> set files" "knownFiles F" "K F = U F"
    using Cons.prems(1,2) by auto
  show ?case
  proof (cases "F \<notin> M \<and> (\<exists>c. fixLoad None F (U F) = FixedLoad c)")
    case False
    then have "newLoads U M (F # files) = newLoads U M files"
      by (auto split: loadResult.splits)
    then show ?thesis
      using Cons.IH[OF d, of K i] Cons.prems(2,3) by simp
  next
    case True
    then obtain c where c: "fixLoad None F (U F) = FixedLoad c" and FM: "F \<notin> M" by auto
    have n: "newLoads U M (F # files) = c # newLoads U M files"
      using c FM by simp
    have m: "managedLoad (CallOf c) = Some (F, c)" using c F(2) by (rule newLoad_managed)
    have s: "fixLoad (Some c) F (K F) = SameLoad"
      using c F(3) by (auto intro: fixLoad_stable)
    have K1: "knownFiles G \<and> afterLoad K F G = U G" if "G \<in> set files" for G
      using that F(1) Cons.prems(2) by (auto simp: afterLoad_def)
    have R1: "\<not> changedFor (afterLoad K F) UNIV (managedLoads j R)" for j
    proof -
      have "changedFor (afterLoad K F) UNIV (managedLoads j R) = changedFor K UNIV (managedLoads j R)"
        by (rule changedFor_cong) (use FM assms(3) in \<open>auto simp: managedLoads_files afterLoad_def\<close>)
      then show ?thesis using Cons.prems(3) by simp
    qed
    show ?thesis
      unfolding n
      using Cons.IH[OF d K1 R1, of "Suc i"] m s
      by (simp add: changedFor_Cons)
  qed
qed

lemma fold_id: "(\<And>s Y. s \<in> set xs \<Longrightarrow> g s Y = Y) \<Longrightarrow> fold g xs X = X"
  by (induction xs arbitrary: X) simp_all

lemma fold_newLoads:
  assumes "\<And>s m X. managedLoad s = Some m \<Longrightarrow> g s X = X"
    and "\<And>F. F \<in> set files \<Longrightarrow> knownFiles F"
  shows "fold g (map CallOf (newLoads U M files)) X = X"
proof -
  have "g s Y = Y" if "s \<in> set (map CallOf (newLoads U M files))" for s Y
  proof -
    from that obtain c where "s = CallOf c" "c \<in> set (newLoads U M files)" by auto
    then obtain F where "F \<in> set files" "fixLoad None F (U F) = FixedLoad c"
      by (auto simp: newLoads_mem)
    then have "managedLoad s = Some (F, c)"
      using assms(2) \<open>s = CallOf c\<close> by (auto intro: newLoad_managed)
    then show ?thesis by (rule assms(1))
  qed
  then show ?thesis
    by (rule fold_id)
qed

lemma known_files: "F \<in> set (map fst knownLoads) \<Longrightarrow> knownFiles F"
  by (simp add: knownFiles_def)

lemma other_fixed:
  "otherLoadedKindsOf
     (map CallOf (newLoads U M (map fst knownLoads)) @ fixStmts K ss) = otherLoadedKindsOf ss"
proof -
  have "fold otherLoads (fixStmts K ss) X = fold otherLoads ss X" for X
    by (rule fold_fixStmts) (rule managed_otherLoads)
  moreover have "fold otherLoads (map CallOf (newLoads U M (map fst knownLoads))) X = X" for X
    by (rule fold_newLoads) (erule managed_otherLoads, erule known_files)
  ultimately show ?thesis
    by (simp add: otherLoadedKindsOf_fold)
qed

lemma used_fixed:
  "usedKindsOf
     (map CallOf (newLoads U M (map fst knownLoads)) @ fixStmts K ss) = usedKindsOf ss"
proof -
  let ?o = "otherLoadedKindsOf ss"
  have "fold (useKind ?o) (fixStmts K ss) X = fold (useKind ?o) ss X" for X
    by (rule fold_fixStmts) (rule managed_useKind)
  moreover have "fold (useKind ?o) (map CallOf (newLoads U M (map fst knownLoads))) X = X" for X
    by (rule fold_newLoads) (erule managed_useKind, erule known_files)
  ultimately show ?thesis
    by (simp add: usedKindsOf_def useKinds_fold other_fixed)
qed

lemma fixed_stable:
  "\<not> changedFor (usedKindsOf ss) UNIV
       (managedLoads i (map CallOf (newLoads (usedKindsOf ss) (managedFiles ss) (map fst knownLoads)) @
          fixStmts (usedKindsOf ss) ss))"
proof (rule new_stable)
  show "distinct (map fst knownLoads)" by (rule distinct_knownLoads)
  show "knownFiles F \<and> usedKindsOf ss F = usedKindsOf ss F" if "F \<in> set (map fst knownLoads)" for F
    using that by (simp add: known_files)
  show "managedFiles (fixStmts (usedKindsOf ss) ss) \<subseteq> managedFiles ss"
    by (rule managedFiles_fixStmts)
  show "\<not> changedFor (usedKindsOf ss) UNIV (managedLoads j (fixStmts (usedKindsOf ss) ss))" for j
    by (rule stable_fixStmts) (rule usedKindsOf_nonempty)
qed

lemma managedFiles_newLoads:
  assumes "c \<in> set (newLoads U M (map fst knownLoads))" and "fixLoad None F (U F) = FixedLoad c"
    and "knownFiles F"
  shows "F \<in> managedFiles (map CallOf (newLoads U M (map fst knownLoads)))"
proof -
  have "managedLoad (CallOf c) = Some (F, c)" using assms(2,3) by (rule newLoad_managed)
  then show ?thesis using assms(1) by (auto simp: managedFiles_iff)
qed

lemma fixed_no_new:
  assumes "F \<in> set (map fst knownLoads)"
    and "F \<notin> managedFiles
       (map CallOf (newLoads (usedKindsOf ss) (managedFiles ss) (map fst knownLoads)) @
          fixStmts (usedKindsOf ss) ss)"
  shows "usedKindsOf ss F = None"
proof (cases "F \<in> managedFiles ss")
  case True
  have "F \<notin> managedFiles (fixStmts (usedKindsOf ss) ss)"
    using assms(2) by (simp add: managedFiles_append)
  with True show ?thesis
    by (rule deleted_first) (rule usedKindsOf_nonempty)
next
  case False
  show ?thesis
  proof (cases "usedKindsOf ss F")
    case None
    then show ?thesis .
  next
    case (Some ks)
    then have "ks \<noteq> []" using usedKindsOf_nonempty[of ss F] by auto
    then obtain c where c: "fixLoad None F (usedKindsOf ss F) = FixedLoad c"
      using fixLoad_None_Fixed[of ks F] Some by auto
    then have "c \<in> set (newLoads (usedKindsOf ss) (managedFiles ss) (map fst knownLoads))"
      using assms(1) False by (auto simp: newLoads_mem)
    then have "F \<in> managedFiles
        (map CallOf (newLoads (usedKindsOf ss) (managedFiles ss) (map fst knownLoads)))"
      using c known_files[OF assms(1)] by (rule managedFiles_newLoads)
    then show ?thesis using assms(2) by (simp add: managedFiles_append)
  qed
qed

lemma FixLoads_fixed_point:
  assumes "ss' = map CallOf (newLoads (usedKindsOf ss) (managedFiles ss) (map fst knownLoads)) @
                 fixStmts (usedKindsOf ss) ss"
  shows "FixLoads (f\<lparr>Stmt := ss'\<rparr>) = f\<lparr>Stmt := ss'\<rparr>"
proof -
  have U: "usedKindsOf ss' = usedKindsOf ss"
    unfolding assms by (rule used_fixed)
  have "F \<in> managedFiles ss' \<or> (\<forall>c. fixLoad None F (usedKindsOf ss F) \<noteq> FixedLoad c)"
    if "F \<in> set (map fst knownLoads)" for F
  proof (cases "F \<in> managedFiles ss'")
    case True
    then show ?thesis by simp
  next
    case False
    then have "usedKindsOf ss F = None"
      using fixed_no_new[OF that] by (simp add: assms)
    then show ?thesis by (simp add: fixLoad_None_Same)
  qed
  then have new: "newLoads (usedKindsOf ss) (managedFiles ss') (map fst knownLoads) = []"
    by (simp only: newLoads_Nil_iff) blast
  have "\<not> changedFor (usedKindsOf ss) UNIV (managedLoads 0 ss')"
    unfolding assms by (rule fixed_stable)
  then have "fixStmts (usedKindsOf ss) ss' = ss'"
    by (rule fixStmts_unchanged)
  then show ?thesis
    by (simp add: FixLoads_eq U new)
qed

text \<open>
  C3. The load fixer applied to its own result returns that result.
\<close>

theorem FixLoads_idempotent: "FixLoads (FixLoads f) = FixLoads f"
proof -
  define ss' where "ss' =
    map CallOf (newLoads (usedKindsOf (Stmt f)) (managedFiles (Stmt f)) (map fst knownLoads)) @
    fixStmts (usedKindsOf (Stmt f)) (Stmt f)"
  have "FixLoads f = f\<lparr>Stmt := ss'\<rparr>"
    by (simp add: ss'_def FixLoads_eq[of f])
  then show ?thesis
    using FixLoads_fixed_point[OF ss'_def, of f] by simp
qed

text \<open>The registry symbols loaded by a file that the load fixer leaves as it is.\<close>

lemma loadedSymbols_Nil: "loadedSymbols [] F = {}"
  by (simp add: loadedSymbols_def)

lemma loadedSymbols_Cons:
  "loadedSymbols (s # ss) F =
     (case managedLoad s of
        None \<Rightarrow> {}
      | Some m \<Rightarrow>
          if fst m = F
          then {v. \<exists>a \<in> set (drop 1 (cList (snd m))). asStringExpr a = Some v \<and> knownKinds v \<noteq> None}
          else {}) \<union> loadedSymbols ss F"
  by (auto simp: loadedSymbols_def split: option.splits)

lemma stable_symbols:
  "\<not> changedFor K UNIV (managedLoads i ss) \<Longrightarrow>
   loadedSymbols ss F =
     (if F \<in> managedFiles ss then {k. inKinds (K F) k \<and> knownKinds k \<noteq> None} else {})"
proof (induction ss arbitrary: K i)
  case Nil
  show ?case by (simp add: loadedSymbols_Nil managedFiles_Nil)
next
  case (Cons s ss)
  show ?case
  proof (cases "managedLoad s")
    case None
    then show ?thesis
      using Cons.IH[of K "Suc i"] Cons.prems
      by (simp add: loadedSymbols_Cons managedFiles_Cons)
  next
    case (Some m)
    obtain G c where m: "m = (G, c)" by (cases m)
    have ms: "managedLoad s = Some (G, c)" using Some m by simp
    from Cons.prems ms have
      same: "fixLoad (Some c) G (K G) = SameLoad" and
      rest: "\<not> changedFor (afterLoad K G) UNIV (managedLoads (Suc i) ss)"
      by (simp_all add: changedFor_Cons)
    note syms = fixLoad_Same_symbols[OF same]
    note ih = Cons.IH[OF rest]
    show ?thesis
    proof (cases "G = F")
      case True
      have "loadedSymbols ss F = {}"
        using ih True by (simp add: afterLoad_def inKinds_def)
      then show ?thesis
        using ms True syms by (simp add: loadedSymbols_Cons managedFiles_Cons)
    next
      case False
      then show ?thesis
        using ms ih by (simp add: loadedSymbols_Cons managedFiles_Cons afterLoad_def)
    qed
  qed
qed

lemma knownKinds_file: "knownKinds k = Some F \<Longrightarrow> knownFiles F"
  by (auto simp: knownKinds_def knownLoads_def knownFiles_def split: if_splits)

lemma FixLoads_loads_used_input:
  "loadedSymbols (Stmt (FixLoads f)) F =
     {k. knownKinds k = Some F \<and> k \<in> calleeKinds (Stmt f) \<and> k \<notin> otherLoadedKindsOf (Stmt f)}"
proof -
  define ss where "ss = Stmt f"
  define ss' where "ss' =
    map CallOf (newLoads (usedKindsOf ss) (managedFiles ss) (map fst knownLoads)) @
    fixStmts (usedKindsOf ss) ss"
  have out: "Stmt (FixLoads f) = ss'"
    by (simp add: ss'_def ss_def FixLoads_eq[of f])
  have "\<not> changedFor (usedKindsOf ss) UNIV (managedLoads 0 ss')"
    unfolding ss'_def by (rule fixed_stable)
  then have syms: "loadedSymbols ss' F =
     (if F \<in> managedFiles ss' then {k. inKinds (usedKindsOf ss F) k \<and> knownKinds k \<noteq> None} else {})"
    by (rule stable_symbols)
  have used: "{k. inKinds (usedKindsOf ss F) k \<and> knownKinds k \<noteq> None} =
     {k. knownKinds k = Some F \<and> k \<in> calleeKinds ss \<and> k \<notin> otherLoadedKindsOf ss}"
    by (auto simp: inKinds_usedKindsOf)
  show ?thesis
  proof (cases "F \<in> managedFiles ss'")
    case True
    then show ?thesis using syms used by (simp add: out ss_def)
  next
    case False
    have "{k. knownKinds k = Some F \<and> k \<in> calleeKinds ss \<and> k \<notin> otherLoadedKindsOf ss} = {}"
    proof (cases "F \<in> set (map fst knownLoads)")
      case True
      then have "usedKindsOf ss F = None"
        using False fixed_no_new[of F ss] by (simp add: ss'_def)
      then show ?thesis using used by (simp add: inKinds_def)
    next
      case notknown: False
      then have "\<not> knownFiles F" by (simp add: knownFiles_def)
      then show ?thesis by (auto dest: knownKinds_file)
    qed
    then show ?thesis using syms False by (simp add: out ss_def)
  qed
qed

lemma used_same:
  assumes "usedKindsOf ss' = usedKindsOf ss"
  shows "{k. knownKinds k = Some F \<and> k \<in> calleeKinds ss' \<and> k \<notin> otherLoadedKindsOf ss'} =
         {k. knownKinds k = Some F \<and> k \<in> calleeKinds ss \<and> k \<notin> otherLoadedKindsOf ss}"
proof -
  have "inKinds (usedKindsOf ss' F) k = inKinds (usedKindsOf ss F) k" for k
    by (simp add: assms)
  then show ?thesis
    by (simp only: inKinds_usedKindsOf) blast
qed

text \<open>
  C2, as amended. After \<^verbatim>\<open>FixLoads\<close>, for every file \<open>F\<close>, the registry symbols that
  the load statements of \<open>F\<close> load by a string argument are exactly the registry
  symbols owned by \<open>F\<close> that are the kind of a top-level call of the file and are not
  loaded from a file outside the registry; the kinds and the externally loaded symbols
  are the same in the file and in the fixed file.
\<close>

theorem FixLoads_loads_used:
  "loadedSymbols (Stmt (FixLoads f)) F =
     {k. knownKinds k = Some F \<and> k \<in> calleeKinds (Stmt f) \<and> k \<notin> externallyLoaded (Stmt f)} \<and>
   loadedSymbols (Stmt (FixLoads f)) F =
     {k. knownKinds k = Some F \<and> k \<in> calleeKinds (Stmt (FixLoads f)) \<and>
         k \<notin> externallyLoaded (Stmt (FixLoads f))}"
proof -
  have "usedKindsOf (Stmt (FixLoads f)) = usedKindsOf (Stmt f)"
    by (simp add: FixLoads_eq[of f] used_fixed)
  from used_same[OF this, of F] show ?thesis
    by (simp add: FixLoads_loads_used_input otherLoadedKindsOf_externallyLoaded)
qed

section \<open>Statements that the load fixer passes over\<close>

lemma afterLoads_Nil: "afterLoads K [] = K"
  by (simp add: afterLoads_def managedFiles_Nil)

lemma afterLoads_Cons_None: "managedLoad s = None \<Longrightarrow> afterLoads K (s # ss) = afterLoads K ss"
  by (simp add: afterLoads_def managedFiles_Cons)

lemma afterLoads_Cons_Some:
  "managedLoad s = Some m \<Longrightarrow> afterLoads K (s # ss) = afterLoads (afterLoad K (fst m)) ss"
  by (auto simp: afterLoads_def managedFiles_Cons afterLoad_def)

lemma fixStmts_append:
  "fixStmts K (xs @ ys) = fixStmts K xs @ fixStmts (afterLoads K xs) ys"
proof (induction xs arbitrary: K)
  case Nil
  show ?case by (simp add: afterLoads_Nil)
next
  case (Cons s xs)
  show ?case
    by (cases "managedLoad s") (simp_all add: Cons afterLoads_Cons_None afterLoads_Cons_Some)
qed

lemma managedLoads_index_upper:
  "li \<in> set (managedLoads i ss) \<Longrightarrow> li_index li < i + length ss"
proof (induction ss arbitrary: i)
  case Nil
  then show ?case by simp
next
  case (Cons s ss)
  then show ?case by (fastforce split: option.splits)
qed

text \<open>A load call with no argument, or whose first argument is not a string.\<close>

lemma ignored_managedLoad:
  assumes "asCallExpr s = Some c" "asLiteralExpr (cX c) = Some ''load''"
    "case cList c of [] \<Rightarrow> True | a # args \<Rightarrow> asStringExpr a = None"
  shows "managedLoad s = None"
  using assms by (auto simp: managedLoad_def split: list.splits)

lemma ignored_otherLoads:
  assumes "asCallExpr s = Some c" "asLiteralExpr (cX c) = Some ''load''"
    "case cList c of [] \<Rightarrow> True | a # args \<Rightarrow> asStringExpr a = None"
  shows "otherLoads s X = X"
  using assms by (auto simp: otherLoads_def split: list.splits)

lemma load_useKind:
  assumes "asCallExpr s = Some c" "asLiteralExpr (cX c) = Some ''load''"
  shows "useKind other s U = U"
  using assms by (simp add: useKind_def calleeKind_def knownKinds_load)

lemma other_without:
  "otherLoads s = (\<lambda>X. X) \<Longrightarrow> otherLoadedKindsOf (pre @ s # post) = otherLoadedKindsOf (pre @ post)"
  by (simp add: otherLoadedKindsOf_fold)

lemma used_without:
  assumes "\<And>X. otherLoads s X = X" and "\<And>other U. useKind other s U = U"
  shows "usedKindsOf (pre @ s # post) = usedKindsOf (pre @ post)"
proof -
  have "otherLoadedKindsOf (pre @ s # post) = otherLoadedKindsOf (pre @ post)"
    using assms(1) by (simp add: otherLoadedKindsOf_fold)
  then show ?thesis
    using assms(2) by (simp add: usedKindsOf_def useKinds_fold)
qed

text \<open>
  C9. A top-level call to \<^verbatim>\<open>load\<close> with no argument, or whose first argument is not
  a string, is passed over by \<^verbatim>\<open>FixLoads\<close>: it adds nothing to the externally loaded
  kinds, no recorded load has its index, and the fixed file is the fixed file of the
  statements without it, with the statement itself put back in its place.
\<close>

theorem FixLoads_ignores_malformed_load:
  assumes "asCallExpr s = Some c" and "asLiteralExpr (cX c) = Some ''load''"
    and "case cList c of [] \<Rightarrow> True | a # args \<Rightarrow> asStringExpr a = None"
  shows "snd (scanLoads 0 (pre @ s # post) ([], {})) = snd (scanLoads 0 (pre @ post) ([], {})) \<and>
     length pre \<notin> li_index ` set (fst (scanLoads 0 (pre @ s # post) ([], {}))) \<and>
     (\<exists>A B. Stmt (FixLoads (f\<lparr>Stmt := pre @ s # post\<rparr>)) = A @ s # B \<and>
            Stmt (FixLoads (f\<lparr>Stmt := pre @ post\<rparr>)) = A @ B)"
proof -
  have m: "managedLoad s = None" using assms by (rule ignored_managedLoad)
  have o: "otherLoads s X = X" for X using assms by (rule ignored_otherLoads)
  have u: "useKind other s U = U" for other U using assms(1,2) by (rule load_useKind)
  have other: "snd (scanLoads 0 (pre @ s # post) ([], {})) = snd (scanLoads 0 (pre @ post) ([], {}))"
    using o by (simp add: scanLoads_eq)
  have "li_index li \<noteq> length pre" if "li \<in> set (managedLoads 0 (pre @ s # post))" for li
  proof -
    from that m have "li \<in> set (managedLoads 0 pre) \<or> li \<in> set (managedLoads (Suc (length pre)) post)"
      by (simp add: managedLoads_append)
    then show ?thesis
      using managedLoads_index_upper[of li 0 pre] managedLoads_index[of li "Suc (length pre)" post]
      by auto
  qed
  then have "length pre \<notin> li_index ` set (managedLoads 0 (pre @ s # post))"
    by (metis imageE)
  then have idx: "length pre \<notin> li_index ` set (fst (scanLoads 0 (pre @ s # post) ([], {})))"
    by (simp add: scanLoads_eq)
  define U where "U = usedKindsOf (pre @ post)"
  define new where "new = map CallOf (newLoads U (managedFiles (pre @ post)) (map fst knownLoads))"
  have U: "usedKindsOf (pre @ s # post) = U"
    unfolding U_def using o u by (rule used_without)
  have M: "managedFiles (pre @ s # post) = managedFiles (pre @ post)"
    using m by (simp add: managedFiles_append managedFiles_Cons)
  have "Stmt (FixLoads (f\<lparr>Stmt := pre @ s # post\<rparr>)) =
      (new @ fixStmts U pre) @ s # fixStmts (afterLoads U pre) post"
    using m by (simp add: FixLoads_eq U M fixStmts_append new_def)
  moreover have "Stmt (FixLoads (f\<lparr>Stmt := pre @ post\<rparr>)) =
      (new @ fixStmts U pre) @ fixStmts (afterLoads U pre) post"
    by (simp add: FixLoads_eq U_def fixStmts_append new_def)
  ultimately show ?thesis using other idx by blast
qed

section \<open>Unchanged, deleted and rewritten load statements\<close>





text \<open>The new load statement of a file, for the used kinds \<open>ks\<close>.\<close>

lemma fixLoad_new:
  "ks \<noteq> [] \<Longrightarrow>
   fixLoad None F (Some ks) =
     FixedLoad ((newLoad F)\<lparr>cList := StringExpr noComments F #
                  sort_key stringValue (map (StringExpr noComments) ks)\<rparr>)"
  by (simp add: fixLoad_eq missingKinds_def newLoad_def Let_def sort_key_Nil)

lemma newLoads_concat:
  assumes "\<And>F. U F \<noteq> Some []"
  shows "newLoads U M files =
     concat (map (\<lambda>F. if F \<in> M then []
                       else case U F of
                              None \<Rightarrow> []
                            | Some ks \<Rightarrow>
                                [(newLoad F)\<lparr>cList := StringExpr noComments F #
                                   sort_key stringValue (map (StringExpr noComments) ks)\<rparr>])
               files)"
proof (induction files)
  case Nil
  show ?case by simp
next
  case (Cons F files)
  show ?case
  proof (cases "U F")
    case None
    then show ?thesis using Cons by (simp add: fixLoad_None_Same)
  next
    case (Some ks)
    then have "ks \<noteq> []" using assms[of F] by auto
    then show ?thesis using Cons Some by (simp add: fixLoad_new)
  qed
qed

lemma fixStmts_others:
  "filter (\<lambda>s. managedLoad s = None) (fixStmts K ss) = filter (\<lambda>s. managedLoad s = None) ss"
proof (induction ss arbitrary: K)
  case Nil
  show ?case by simp
next
  case (Cons s ss)
  show ?case
  proof (cases "managedLoad s")
    case None
    then show ?thesis by (simp add: Cons)
  next
    case (Some m)
    obtain F c where m: "m = (F, c)" by (cases m)
    have "filter (\<lambda>s. managedLoad s = None) (emitResult c (fixLoad (Some c) F (K F))) = []"
      using emitResult_managed[of s F c _ "K F"] Some m
      by (fastforce simp: filter_empty_conv)
    then show ?thesis using Some m by (simp add: Cons)
  qed
qed

text \<open>
  C6, as amended. The fixed file is the new load statements followed by the old
  statements, each load of a known file replaced by what \<^verbatim>\<open>fixLoad\<close> returns for it;
  the statements that are not such loads are the old ones, in their order. The new load
  statements follow the order of \<^verbatim>\<open>knownLoads\<close>: one for each file that has no load
  statement and has used kinds, with the kinds sorted. Every statement that \<^verbatim>\<open>fixLoad\<close>
  rewrites or creates (not one it returns as it is) has, after the file label, its
  string arguments sorted by value, the managed symbols together with the strings that
  are not in the registry, then the arguments that are not strings, in their old order.
  So the managed symbols it holds are sorted, and precede the arguments that are not
  strings.
\<close>

theorem FixLoads_order:
  assumes "fixLoad load file kinds = FixedLoad c"
  shows "Stmt (FixLoads f) =
       map CallOf
         (concat (map (\<lambda>F. if F \<in> managedFiles (Stmt f) then []
                            else case usedKindsOf (Stmt f) F of
                                   None \<Rightarrow> []
                                 | Some ks \<Rightarrow>
                                     [(newLoad F)\<lparr>cList := StringExpr noComments F #
                                        sort_key stringValue (map (StringExpr noComments) ks)\<rparr>])
                    (map fst knownLoads))) @
       fixStmts (usedKindsOf (Stmt f)) (Stmt f) \<and>
     filter (\<lambda>s. managedLoad s = None) (fixStmts (usedKindsOf (Stmt f)) (Stmt f)) =
       filter (\<lambda>s. managedLoad s = None) (Stmt f) \<and>
     (\<exists>symbols otherArgs.
        cList c = take 1 (cList (case load of None \<Rightarrow> newLoad file | Some l \<Rightarrow> l)) @
                  symbols @ otherArgs \<and>
        sorted (map stringValue symbols) \<and>
        sorted (map stringValue (filter managedSymbol symbols)) \<and>
        (\<forall>a \<in> set symbols. asStringExpr a = Some (stringValue a)) \<and>
        (\<forall>a \<in> set otherArgs. asStringExpr a = None) \<and>
        otherArgs = filter (\<lambda>a. asStringExpr a = None)
                      (drop 1 (cList (case load of None \<Rightarrow> newLoad file | Some l \<Rightarrow> l))))"
proof -
  let ?fixed = "case load of None \<Rightarrow> newLoad file | Some l \<Rightarrow> l"
  let ?args = "drop 1 (cList ?fixed)"
  let ?syms = "sort_key stringValue
       (filter (keepsSymbol kinds) ?args @ map (StringExpr noComments) (missingKinds kinds ?args))"
  let ?others = "filter (\<lambda>a. asStringExpr a = None) ?args"
  have a: "Stmt (FixLoads f) =
       map CallOf (newLoads (usedKindsOf (Stmt f)) (managedFiles (Stmt f)) (map fst knownLoads)) @
       fixStmts (usedKindsOf (Stmt f)) (Stmt f)"
    by (simp add: FixLoads_eq[of f])
  note n = newLoads_concat[of "usedKindsOf (Stmt f)", OF usedKindsOf_nonempty]
  from fixLoad_Fixed_cList[OF assms] have c: "cList c = take 1 (cList ?fixed) @ ?syms @ ?others"
    by (simp add: fixedArgs_def)
  have s: "sorted (map stringValue ?syms)" by (rule sorted_sort_key)
  then have m: "sorted (map stringValue (filter managedSymbol ?syms))" by (rule sorted_filter)
  have str: "asStringExpr a = Some (stringValue a)" if "a \<in> set ?syms" for a
    using that by (auto dest: keepsSymbol_string)
  have "cList c = take 1 (cList ?fixed) @ ?syms @ ?others \<and>
        sorted (map stringValue ?syms) \<and>
        sorted (map stringValue (filter managedSymbol ?syms)) \<and>
        (\<forall>a \<in> set ?syms. asStringExpr a = Some (stringValue a)) \<and>
        (\<forall>a \<in> set ?others. asStringExpr a = None) \<and>
        ?others = filter (\<lambda>a. asStringExpr a = None) ?args"
    using c s m str by simp
  then have "\<exists>symbols otherArgs.
        cList c = take 1 (cList ?fixed) @ symbols @ otherArgs \<and>
        sorted (map stringValue symbols) \<and>
        sorted (map stringValue (filter managedSymbol symbols)) \<and>
        (\<forall>a \<in> set symbols. asStringExpr a = Some (stringValue a)) \<and>
        (\<forall>a \<in> set otherArgs. asStringExpr a = None) \<and>
        otherArgs = filter (\<lambda>a. asStringExpr a = None) ?args"
    by blast
  then show ?thesis
    using a n fixStmts_others[of "usedKindsOf (Stmt f)" "Stmt f"] by simp
qed

section \<open>The order of the used kinds, and the loads that are recorded\<close>

lemma scanLoads_nonempty:
  "li \<in> set (fst (scanLoads i ss ([], X))) \<Longrightarrow> cList (li_old li) \<noteq> []"
proof -
  have "li \<in> set (managedLoads i ss) \<Longrightarrow> cList (li_old li) \<noteq> []"
  proof (induction ss arbitrary: i)
    case Nil
    then show ?case by simp
  next
    case (Cons s ss)
    then show ?case
      using managedLoad_nonempty[of s]
      by (cases "managedLoad s") (auto split: option.splits)
  qed
  then show "li \<in> set (fst (scanLoads i ss ([], X))) \<Longrightarrow> cList (li_old li) \<noteq> []"
    by (simp add: scanLoads_eq)
qed

lemma filter_eq_distinct:
  "distinct xs \<Longrightarrow> filter (\<lambda>x. v = x) xs = (if v \<in> set xs then [v] else [])"
  by (induction xs) auto

lemma sort_key_kinds_order:
  assumes "distinct new" "distinct new'" "set new = set new'"
  shows "sort_key stringValue (kept @ map (StringExpr noComments) new) =
         sort_key stringValue (kept @ map (StringExpr noComments) new')"
proof (rule properties_for_sort_key[symmetric])
  let ?ys = "sort_key stringValue (kept @ map (StringExpr noComments) new)"
  have "mset new = mset new'"
    using assms by (simp add: set_eq_iff_mset_eq_distinct)
  then show "mset ?ys = mset (kept @ map (StringExpr noComments) new')"
    by simp
  show "sorted (map stringValue ?ys)" by (rule sorted_sort_key)
  show "filter (\<lambda>x. stringValue k = stringValue x) ?ys =
        filter (\<lambda>x. stringValue k = stringValue x) (kept @ map (StringExpr noComments) new')" for k
  proof -
    have "filter (\<lambda>x. stringValue k = stringValue x) ?ys =
        filter (\<lambda>x. stringValue k = stringValue x) (kept @ map (StringExpr noComments) new)"
      using sort_key_stable[of stringValue "stringValue k" "kept @ map (StringExpr noComments) new"]
      by (simp add: eq_commute)
    moreover have "filter (\<lambda>x. stringValue k = stringValue x) (map (StringExpr noComments) n) =
        map (StringExpr noComments) (filter (\<lambda>x. stringValue k = x) n)" for n
      by (simp add: filter_map comp_def)
    ultimately show ?thesis
      using assms by (simp add: filter_eq_distinct)
  qed
qed

lemma fixLoad_kinds_order:
  assumes "distinct ks" "distinct ks'" "set ks = set ks'"
  shows "fixLoad load file (Some ks) = fixLoad load file (Some ks')"
proof -
  have i: "inKinds (Some ks) = inKinds (Some ks')"
    using assms(3) by (simp add: inKinds_def fun_eq_iff)
  have k: "keepsSymbol (Some ks) = keepsSymbol (Some ks')"
    unfolding keepsSymbol_def i ..
  have d: "dropsSymbol (Some ks) = dropsSymbol (Some ks')"
    unfolding dropsSymbol_def i ..
  have m: "distinct (missingKinds (Some ks) args)" "distinct (missingKinds (Some ks') args)"
    "set (missingKinds (Some ks) args) = set (missingKinds (Some ks') args)" for args
    using assms by (auto simp: missingKinds_def k)
  have e: "missingKinds (Some ks) args = [] \<longleftrightarrow> missingKinds (Some ks') args = []" for args
    using m(3)[of args] by (metis set_empty)
  have s: "sort_key stringValue (kept @ map (StringExpr noComments) (missingKinds (Some ks) args)) =
        sort_key stringValue (kept @ map (StringExpr noComments) (missingKinds (Some ks') args))"
    for kept args
    by (rule sort_key_kinds_order) (rule m)+
  show ?thesis
    by (simp add: fixLoad_eq Let_def k d e s)
qed

section \<open>The load fixer on the example files\<close>

lemma knownKinds_eq:
  "knownKinds k =
     (if k \<in> set [''go_grpc_library'', ''go_proto_library'']
      then Some ''@io_bazel_rules_go//proto:def.bzl''
      else if k \<in> set [''cgo_library'', ''go_binary'', ''go_library'', ''go_prefix'', ''go_test'']
      then Some ''@io_bazel_rules_go//go:def.bzl'' else None)"
  by (simp add: knownKinds_def knownLoads_def)

lemmas load_fixer = FixLoads_def fixLoad_def newLoad_def inKinds_def knownFiles_def
  knownLoads_def knownKinds_eq Let_def loadOf_def defBzl_def

lemma FixLoads_manualFile: "FixLoads manualFile = manualFile"
  by (simp add: manualFile_def shorthand load_fixer)

text \<open>
  A kind that is loaded from a file outside the registry is not loaded again: the file
  is left as it is.
\<close>

lemma FixLoads_externalFile: "FixLoads externalFile = externalFile"
  by (simp add: externalFile_def goLibraryX_def shorthand load_fixer)

text \<open>
  C2, counterexample. \<^verbatim>\<open>go_embed_data\<close> is loaded from a registry file by a load
  statement that \<^verbatim>\<open>FixLoads\<close> leaves as it is, and it is not a registry symbol: the
  symbols that the load statements of a registry file load are not only the used
  registry symbols.
\<close>

theorem FixLoads_keeps_manual_symbol:
  "loadedStrings (Stmt (FixLoads manualFile)) defBzl \<noteq>
     {k. knownKinds k = Some defBzl \<and> k \<in> calleeKinds (Stmt manualFile) \<and>
         k \<notin> externallyLoaded (Stmt manualFile)}"
proof -
  have "managedLoad (CallOf (loadOf defBzl [str ''go_embed_data''])) =
      Some (defBzl, loadOf defBzl [str ''go_embed_data''])"
    by (simp add: managedLoad_def asCallExpr_CallOf loadOf_def defBzl_def str_def
        knownFiles_def knownLoads_def)
  then have "''go_embed_data'' \<in> loadedStrings (Stmt (FixLoads manualFile)) defBzl"
    by (simp add: FixLoads_manualFile) (simp add: manualFile_def loadedStrings_def loadOf_def str_def)
  moreover have "knownKinds ''go_embed_data'' = None"
    by (simp add: knownKinds_eq)
  ultimately show ?thesis by auto
qed

text \<open>
  C6, counterexample. The load names \<^verbatim>\<open>zzz\<close> and \<^verbatim>\<open>aaa\<close>, which are not in the
  registry, and \<^verbatim>\<open>go_test\<close>; the file calls \<^verbatim>\<open>go_binary\<close>. \<^verbatim>\<open>fixLoad\<close> sorts
  the strings that are not in the registry with the managed symbol, so the managed
  symbol \<^verbatim>\<open>go_binary\<close> comes after the other argument \<^verbatim>\<open>aaa\<close>, and \<^verbatim>\<open>zzz\<close> and
  \<^verbatim>\<open>aaa\<close> have changed places. And in a load that needs no symbol added or removed
  the managed symbols stay out of order.
\<close>

theorem FixLoads_sorts_other_strings:
  "Stmt (FixLoads resortedFile) =
     [CallOf (loadOf defBzl [str ''aaa'', str ''go_binary'', str ''zzz'']),
      call ''go_binary'' [attr ''name'' (str ''b'')]] \<and>
   \<not> managedSymbolsFirst (loadOf defBzl [str ''aaa'', str ''go_binary'', str ''zzz'']) \<and>
   Stmt (FixLoads unsortedFile) =
     [CallOf (loadOf defBzl [str ''go_test'', str ''go_library'']),
      call ''go_test'' [attr ''name'' (str ''t'')], goLibraryX] \<and>
   \<not> managedSymbolsFirst (loadOf defBzl [str ''go_test'', str ''go_library''])"
proof -
  have a: "Stmt (FixLoads resortedFile) =
     [CallOf (loadOf defBzl [str ''aaa'', str ''go_binary'', str ''zzz'']),
      call ''go_binary'' [attr ''name'' (str ''b'')]]"
    by (simp add: resortedFile_def shorthand load_fixer)
  have b: "\<not> managedSymbolsFirst (loadOf defBzl [str ''aaa'', str ''go_binary'', str ''zzz''])"
    by (simp add: managedSymbolsFirst_def managedSymbol_def loadOf_def str_def knownKinds_eq)
  have c: "Stmt (FixLoads unsortedFile) =
     [CallOf (loadOf defBzl [str ''go_test'', str ''go_library'']),
      call ''go_test'' [attr ''name'' (str ''t'')], goLibraryX]"
    by (simp add: unsortedFile_def goLibraryX_def shorthand load_fixer)
  have d: "\<not> managedSymbolsFirst (loadOf defBzl [str ''go_test'', str ''go_library''])"
    by (simp add: managedSymbolsFirst_def managedSymbol_def loadOf_def str_def knownKinds_eq)
  from a b c d show ?thesis by simp
qed




theorem FixLoads_order_witness:
  "fixLoad (Some mixedLoad) defBzl (Some [''go_test'', ''go_binary'']) =
     FixedLoad (loadOf defBzl
       [str ''aaa_custom'', str ''go_binary'', str ''go_test'', attr ''x'' (str ''y'')]) \<and>
   Stmt (FixLoads usesFile) =
     [CallOf ((loadOf defBzl [str ''go_library'', str ''go_test''])\<lparr>cForceCompact := True\<rparr>),
      call ''go_test'' [attr ''name'' (str ''t'')], goLibraryX]"
proof -
  have h: "fixLoad (Some mixedLoad) defBzl (Some [''go_test'', ''go_binary'']) =
     FixedLoad (loadOf defBzl
       [str ''aaa_custom'', str ''go_binary'', str ''go_test'', attr ''x'' (str ''y'')])"
    by (simp add: mixedLoad_def shorthand load_fixer)
  have u: "usedKindsOf (Stmt usesFile) defBzl = Some [''go_test'', ''go_library'']"
    "usedKindsOf (Stmt usesFile) ''@io_bazel_rules_go//proto:def.bzl'' = None"
    "managedFiles (Stmt usesFile) = {}"
    by (simp_all add: usesFile_def goLibraryX_def usedKindsOf_def otherLoadedKindsOf_def
        managedFiles_def managedLoad_def shorthand load_fixer)
  have r: "fixStmts (usedKindsOf (Stmt usesFile)) (Stmt usesFile) = Stmt usesFile"
    by (simp add: usesFile_def goLibraryX_def managedLoad_def shorthand)
  show ?thesis
    using FixLoads_order[OF h, of usesFile] h u r
    by (simp add: knownLoads_def defBzl_def)
       (simp add: usesFile_def loadOf_def newLoad_def shorthand)
qed

theorem FixLoads_ignores_malformed_load_witness:
  "Stmt (FixLoads (usesFile\<lparr>Stmt := [CallOf oddLoad, goLibraryX]\<rparr>)) =
     [CallOf ((loadOf defBzl [str ''go_library''])\<lparr>cForceCompact := True\<rparr>),
      CallOf oddLoad, goLibraryX] \<and>
   Stmt (FixLoads (usesFile\<lparr>Stmt := [goLibraryX]\<rparr>)) =
     [CallOf ((loadOf defBzl [str ''go_library''])\<lparr>cForceCompact := True\<rparr>), goLibraryX] \<and>
   snd (scanLoads 0 [CallOf oddLoad, goLibraryX] ([], {})) = {}"
proof -
  have h: "asCallExpr (CallOf oddLoad) = Some oddLoad"
    "asLiteralExpr (cX oddLoad) = Some ''load''"
    "case cList oddLoad of [] \<Rightarrow> True | a # args \<Rightarrow> asStringExpr a = None"
    by (simp_all add: asCallExpr_CallOf oddLoad_def)
  have without: "Stmt (FixLoads (usesFile\<lparr>Stmt := [goLibraryX]\<rparr>)) =
     [CallOf ((loadOf defBzl [str ''go_library''])\<lparr>cForceCompact := True\<rparr>), goLibraryX]"
    by (simp add: goLibraryX_def shorthand load_fixer)
  have "scanLoads 0 [goLibraryX] ([], {}) = ([], {})"
    by (simp add: goLibraryX_def call_def)
  then show ?thesis
    using FixLoads_ignores_malformed_load[OF h, of "[]" "[goLibraryX]" usesFile] without
    by (simp add: goLibraryX_def oddLoad_def shorthand load_fixer)
qed

end
